theory Spec2Isabelle
  imports Main "HOL-Library.Word" "HOL-Library.AList"
begin

unbundle bit_operations_syntax

type_synonym byte = "8 word"
type_synonym bytes = "byte list"

text \<open>Exceptions raised by the program and by the library calls it makes.\<close>

datatype error = OverflowError | ValueError | BinasciiError | InvalidToken | KeyError

section \<open>Library primitives\<close>

subsection \<open>Base64 (\<open>base64\<close>, \<open>binascii\<close>)\<close>

definition b64_alphabet :: bytes where
  "b64_alphabet = map of_char ''ABCDEFGHIJKLMNOPQRSTUVWXYZabcdefghijklmnopqrstuvwxyz0123456789+/''"

definition urlsafe_alphabet :: bytes where
  "urlsafe_alphabet = map of_char ''ABCDEFGHIJKLMNOPQRSTUVWXYZabcdefghijklmnopqrstuvwxyz0123456789-_''"

text \<open>
  Encoding with a 64-character alphabet: three bytes give four characters, the last
  group is padded with \<open>=\<close> (61). \<open>b64encode\<close> uses the standard alphabet,
  \<open>urlsafe_b64encode\<close> the one with \<open>-\<close> and \<open>_\<close>.
\<close>

fun b64encode_with :: "bytes \<Rightarrow> bytes \<Rightarrow> bytes" where
  "b64encode_with al (a # b # c # rest) =
     [al ! (unat a div 4), al ! ((unat a mod 4) * 16 + unat b div 16),
      al ! ((unat b mod 16) * 4 + unat c div 64), al ! (unat c mod 64)] @ b64encode_with al rest"
| "b64encode_with al [a, b] =
     [al ! (unat a div 4), al ! ((unat a mod 4) * 16 + unat b div 16), al ! ((unat b mod 16) * 4), 61]"
| "b64encode_with al [a] = [al ! (unat a div 4), al ! ((unat a mod 4) * 16), 61, 61]"
| "b64encode_with al [] = []"

definition b64encode :: "bytes \<Rightarrow> bytes" where
  "b64encode s = b64encode_with b64_alphabet s"

definition urlsafe_b64encode :: "bytes \<Rightarrow> bytes" where
  "urlsafe_b64encode s = b64encode_with urlsafe_alphabet s"

fun index_of :: "'a \<Rightarrow> 'a list \<Rightarrow> nat option" where
  "index_of x [] = None"
| "index_of x (y # ys) = (if x = y then Some 0 else map_option Suc (index_of x ys))"

text \<open>The decoding table of \<open>binascii\<close>: the value of a character of the standard alphabet.\<close>

definition table_a2b_base64 :: "byte \<Rightarrow> nat option" where
  "table_a2b_base64 ch = index_of ch b64_alphabet"

text \<open>
  \<open>binascii.a2b_base64\<close> in its default, non-strict mode: characters outside the
  alphabet are skipped, a complete pad sequence ends the input, and input that stops inside
  a group of four is an error. The arguments after the input are the position in the
  group, the bits left over from the previous character, the count of pad characters seen
  in a row, and the output so far.
\<close>

fun a2b_base64_loop :: "bytes \<Rightarrow> nat \<Rightarrow> nat \<Rightarrow> nat \<Rightarrow> bytes \<Rightarrow> error + bytes" where
  "a2b_base64_loop [] quad_pos leftchar pads out =
     (if quad_pos \<noteq> 0 then Inl BinasciiError else Inr out)"
| "a2b_base64_loop (ch # rest) quad_pos leftchar pads out =
     (if ch = 61 then
        (if quad_pos \<ge> 2 \<and> quad_pos + (pads + 1) \<ge> 4 then Inr out
         else a2b_base64_loop rest quad_pos leftchar (if quad_pos \<ge> 2 then pads + 1 else pads) out)
      else
        (case table_a2b_base64 ch of
           None \<Rightarrow> a2b_base64_loop rest quad_pos leftchar pads out
         | Some v \<Rightarrow>
             if quad_pos = 0 then a2b_base64_loop rest 1 v 0 out
             else if quad_pos = 1 then
               a2b_base64_loop rest 2 (v mod 16) 0 (out @ [of_nat (leftchar * 4 + v div 16)])
             else if quad_pos = 2 then
               a2b_base64_loop rest 3 (v mod 4) 0 (out @ [of_nat (leftchar * 16 + v div 4)])
             else a2b_base64_loop rest 0 0 0 (out @ [of_nat (leftchar * 64 + v)])))"

definition b64decode :: "bytes \<Rightarrow> error + bytes" where
  "b64decode s = a2b_base64_loop s 0 0 0 []"

text \<open>\<open>urlsafe_b64decode\<close> first maps \<open>-\<close> to \<open>+\<close> and \<open>_\<close> to \<open>/\<close>, then decodes.\<close>

definition urlsafe_translate :: "byte \<Rightarrow> byte" where
  "urlsafe_translate ch = (if ch = 45 then 43 else if ch = 95 then 47 else ch)"

definition urlsafe_b64decode :: "bytes \<Rightarrow> error + bytes" where
  "urlsafe_b64decode s = b64decode (map urlsafe_translate s)"

subsection \<open>SHA-256, HMAC and PBKDF2 (\<open>cryptography.hazmat.primitives\<close>)\<close>

definition sha256_k :: "32 word list" where
  "sha256_k = [
      1116352408, 1899447441, 3049323471, 3921009573, 961987163, 1508970993,
      2453635748, 2870763221, 3624381080, 310598401, 607225278, 1426881987,
      1925078388, 2162078206, 2614888103, 3248222580, 3835390401, 4022224774,
      264347078, 604807628, 770255983, 1249150122, 1555081692, 1996064986,
      2554220882, 2821834349, 2952996808, 3210313671, 3336571891, 3584528711,
      113926993, 338241895, 666307205, 773529912, 1294757372, 1396182291,
      1695183700, 1986661051, 2177026350, 2456956037, 2730485921, 2820302411,
      3259730800, 3345764771, 3516065817, 3600352804, 4094571909, 275423344,
      430227734, 506948616, 659060556, 883997877, 958139571, 1322822218,
      1537002063, 1747873779, 1955562222, 2024104815, 2227730452, 2361852424,
      2428436474, 2756734187, 3204031479, 3329325298]"

definition be32 :: "byte \<Rightarrow> byte \<Rightarrow> byte \<Rightarrow> byte \<Rightarrow> 32 word" where
  "be32 a b c d = push_bit 24 (ucast a) OR push_bit 16 (ucast b) OR push_bit 8 (ucast c) OR ucast d"

definition be32_bytes :: "32 word \<Rightarrow> bytes" where
  "be32_bytes w = [ucast (drop_bit 24 w), ucast (drop_bit 16 w), ucast (drop_bit 8 w), ucast w]"

definition be64_bytes :: "64 word \<Rightarrow> bytes" where
  "be64_bytes w = map (\<lambda>i. ucast (drop_bit (56 - 8 * i) w)) [0..<8]"

definition sha256_pad :: "bytes \<Rightarrow> bytes" where
  "sha256_pad msg =
     msg @ [128] @ replicate ((119 - length msg mod 64) mod 64) 0 @ be64_bytes (of_nat (8 * length msg))"

fun words_of :: "bytes \<Rightarrow> 32 word list" where
  "words_of (a # b # c # d # rest) = be32 a b c d # words_of rest"
| "words_of _ = []"

definition ssig0 :: "32 word \<Rightarrow> 32 word" where
  "ssig0 x = word_rotr 7 x XOR word_rotr 18 x XOR drop_bit 3 x"

definition ssig1 :: "32 word \<Rightarrow> 32 word" where
  "ssig1 x = word_rotr 17 x XOR word_rotr 19 x XOR drop_bit 10 x"

definition bsig0 :: "32 word \<Rightarrow> 32 word" where
  "bsig0 x = word_rotr 2 x XOR word_rotr 13 x XOR word_rotr 22 x"

definition bsig1 :: "32 word \<Rightarrow> 32 word" where
  "bsig1 x = word_rotr 6 x XOR word_rotr 11 x XOR word_rotr 25 x"

definition ch32 :: "32 word \<Rightarrow> 32 word \<Rightarrow> 32 word \<Rightarrow> 32 word" where
  "ch32 x y z = (x AND y) XOR (NOT x AND z)"

definition maj32 :: "32 word \<Rightarrow> 32 word \<Rightarrow> 32 word \<Rightarrow> 32 word" where
  "maj32 x y z = (x AND y) XOR (x AND z) XOR (y AND z)"

primrec sha256_schedule :: "nat \<Rightarrow> 32 word list \<Rightarrow> 32 word list" where
  "sha256_schedule 0 w = w"
| "sha256_schedule (Suc n) w =
     sha256_schedule n
       (w @ [ssig1 (w ! (length w - 2)) + w ! (length w - 7) + ssig0 (w ! (length w - 15)) + w ! (length w - 16)])"

type_synonym sha256_state =
  "32 word \<times> 32 word \<times> 32 word \<times> 32 word \<times> 32 word \<times> 32 word \<times> 32 word \<times> 32 word"

fun sha256_round :: "sha256_state \<Rightarrow> 32 word \<times> 32 word \<Rightarrow> sha256_state" where
  "sha256_round (a, b, c, d, e, f, g, h) (k, w) =
     (let t1 = h + bsig1 e + ch32 e f g + k + w; t2 = bsig0 a + maj32 a b c
      in (t1 + t2, a, b, c, d + t1, e, f, g))"

fun sha256_add :: "sha256_state \<Rightarrow> sha256_state \<Rightarrow> sha256_state" where
  "sha256_add (a, b, c, d, e, f, g, h) (a', b', c', d', e', f', g', h') =
     (a + a', b + b', c + c', d + d', e + e', f + f', g + g', h + h')"

definition sha256_compress :: "sha256_state \<Rightarrow> bytes \<Rightarrow> sha256_state" where
  "sha256_compress st block =
     sha256_add st (foldl sha256_round st (zip sha256_k (sha256_schedule 48 (words_of block))))"

definition sha256_init :: sha256_state where
  "sha256_init = (1779033703, 3144134277, 1013904242, 2773480762, 1359893119, 2600822924, 528734635, 1541459225)"

definition blocks_of :: "nat \<Rightarrow> bytes \<Rightarrow> bytes list" where
  "blocks_of n xs = map (\<lambda>i. take n (drop (n * i) xs)) [0..<length xs div n]"

fun sha256_digest :: "sha256_state \<Rightarrow> bytes" where
  "sha256_digest (a, b, c, d, e, f, g, h) = concat (map be32_bytes [a, b, c, d, e, f, g, h])"

definition sha256 :: "bytes \<Rightarrow> bytes" where
  "sha256 msg = sha256_digest (foldl sha256_compress sha256_init (blocks_of 64 (sha256_pad msg)))"

definition xor_bytes :: "bytes \<Rightarrow> bytes \<Rightarrow> bytes" where
  "xor_bytes xs ys = map (\<lambda>(x, y). x XOR y) (zip xs ys)"

definition hmac_sha256 :: "bytes \<Rightarrow> bytes \<Rightarrow> bytes" where
  "hmac_sha256 key msg =
     (let k0 = (if length key > 64 then sha256 key else key);
          k = k0 @ replicate (64 - length k0) 0
      in sha256 (map (\<lambda>x. x XOR 92) k @ sha256 (map (\<lambda>x. x XOR 54) k @ msg)))"

text \<open>
  PBKDF2 (RFC 8018) with HMAC-SHA256 as the pseudorandom function: block \<open>i\<close> is the XOR
  of the chain \<open>U\<^sub>1 = PRF(P, S || INT(i))\<close>, \<open>U\<^sub>j = PRF(P, U\<^sub>j\<^sub>-\<^sub>1)\<close> of \<open>c\<close> values.
\<close>

primrec pbkdf2_chain :: "nat \<Rightarrow> bytes \<Rightarrow> bytes \<Rightarrow> bytes \<Rightarrow> bytes" where
  "pbkdf2_chain 0 password u acc = acc"
| "pbkdf2_chain (Suc n) password u acc =
     (let u' = hmac_sha256 password u in pbkdf2_chain n password u' (xor_bytes acc u'))"

definition pbkdf2_block :: "bytes \<Rightarrow> bytes \<Rightarrow> nat \<Rightarrow> nat \<Rightarrow> bytes" where
  "pbkdf2_block password salt_bytes c i =
     (let u1 = hmac_sha256 password (salt_bytes @ be32_bytes (of_nat i))
      in pbkdf2_chain (c - 1) password u1 u1)"

definition pbkdf2_hmac_sha256 :: "bytes \<Rightarrow> bytes \<Rightarrow> nat \<Rightarrow> nat \<Rightarrow> bytes" where
  "pbkdf2_hmac_sha256 password salt_bytes c dklen =
     take dklen (concat (map (pbkdf2_block password salt_bytes c) [1..<(dklen + 31) div 32 + 1]))"

subsection \<open>AES-128 in CBC mode with PKCS7 padding\<close>

definition aes_sbox :: bytes where
  "aes_sbox = [
      0x63, 0x7c, 0x77, 0x7b, 0xf2, 0x6b, 0x6f, 0xc5, 0x30, 0x01, 0x67, 0x2b, 0xfe, 0xd7, 0xab, 0x76,
      0xca, 0x82, 0xc9, 0x7d, 0xfa, 0x59, 0x47, 0xf0, 0xad, 0xd4, 0xa2, 0xaf, 0x9c, 0xa4, 0x72, 0xc0,
      0xb7, 0xfd, 0x93, 0x26, 0x36, 0x3f, 0xf7, 0xcc, 0x34, 0xa5, 0xe5, 0xf1, 0x71, 0xd8, 0x31, 0x15,
      0x04, 0xc7, 0x23, 0xc3, 0x18, 0x96, 0x05, 0x9a, 0x07, 0x12, 0x80, 0xe2, 0xeb, 0x27, 0xb2, 0x75,
      0x09, 0x83, 0x2c, 0x1a, 0x1b, 0x6e, 0x5a, 0xa0, 0x52, 0x3b, 0xd6, 0xb3, 0x29, 0xe3, 0x2f, 0x84,
      0x53, 0xd1, 0x00, 0xed, 0x20, 0xfc, 0xb1, 0x5b, 0x6a, 0xcb, 0xbe, 0x39, 0x4a, 0x4c, 0x58, 0xcf,
      0xd0, 0xef, 0xaa, 0xfb, 0x43, 0x4d, 0x33, 0x85, 0x45, 0xf9, 0x02, 0x7f, 0x50, 0x3c, 0x9f, 0xa8,
      0x51, 0xa3, 0x40, 0x8f, 0x92, 0x9d, 0x38, 0xf5, 0xbc, 0xb6, 0xda, 0x21, 0x10, 0xff, 0xf3, 0xd2,
      0xcd, 0x0c, 0x13, 0xec, 0x5f, 0x97, 0x44, 0x17, 0xc4, 0xa7, 0x7e, 0x3d, 0x64, 0x5d, 0x19, 0x73,
      0x60, 0x81, 0x4f, 0xdc, 0x22, 0x2a, 0x90, 0x88, 0x46, 0xee, 0xb8, 0x14, 0xde, 0x5e, 0x0b, 0xdb,
      0xe0, 0x32, 0x3a, 0x0a, 0x49, 0x06, 0x24, 0x5c, 0xc2, 0xd3, 0xac, 0x62, 0x91, 0x95, 0xe4, 0x79,
      0xe7, 0xc8, 0x37, 0x6d, 0x8d, 0xd5, 0x4e, 0xa9, 0x6c, 0x56, 0xf4, 0xea, 0x65, 0x7a, 0xae, 0x08,
      0xba, 0x78, 0x25, 0x2e, 0x1c, 0xa6, 0xb4, 0xc6, 0xe8, 0xdd, 0x74, 0x1f, 0x4b, 0xbd, 0x8b, 0x8a,
      0x70, 0x3e, 0xb5, 0x66, 0x48, 0x03, 0xf6, 0x0e, 0x61, 0x35, 0x57, 0xb9, 0x86, 0xc1, 0x1d, 0x9e,
      0xe1, 0xf8, 0x98, 0x11, 0x69, 0xd9, 0x8e, 0x94, 0x9b, 0x1e, 0x87, 0xe9, 0xce, 0x55, 0x28, 0xdf,
      0x8c, 0xa1, 0x89, 0x0d, 0xbf, 0xe6, 0x42, 0x68, 0x41, 0x99, 0x2d, 0x0f, 0xb0, 0x54, 0xbb, 0x16]"

definition aes_inv_sbox :: bytes where
  "aes_inv_sbox = [
      0x52, 0x09, 0x6a, 0xd5, 0x30, 0x36, 0xa5, 0x38, 0xbf, 0x40, 0xa3, 0x9e, 0x81, 0xf3, 0xd7, 0xfb,
      0x7c, 0xe3, 0x39, 0x82, 0x9b, 0x2f, 0xff, 0x87, 0x34, 0x8e, 0x43, 0x44, 0xc4, 0xde, 0xe9, 0xcb,
      0x54, 0x7b, 0x94, 0x32, 0xa6, 0xc2, 0x23, 0x3d, 0xee, 0x4c, 0x95, 0x0b, 0x42, 0xfa, 0xc3, 0x4e,
      0x08, 0x2e, 0xa1, 0x66, 0x28, 0xd9, 0x24, 0xb2, 0x76, 0x5b, 0xa2, 0x49, 0x6d, 0x8b, 0xd1, 0x25,
      0x72, 0xf8, 0xf6, 0x64, 0x86, 0x68, 0x98, 0x16, 0xd4, 0xa4, 0x5c, 0xcc, 0x5d, 0x65, 0xb6, 0x92,
      0x6c, 0x70, 0x48, 0x50, 0xfd, 0xed, 0xb9, 0xda, 0x5e, 0x15, 0x46, 0x57, 0xa7, 0x8d, 0x9d, 0x84,
      0x90, 0xd8, 0xab, 0x00, 0x8c, 0xbc, 0xd3, 0x0a, 0xf7, 0xe4, 0x58, 0x05, 0xb8, 0xb3, 0x45, 0x06,
      0xd0, 0x2c, 0x1e, 0x8f, 0xca, 0x3f, 0x0f, 0x02, 0xc1, 0xaf, 0xbd, 0x03, 0x01, 0x13, 0x8a, 0x6b,
      0x3a, 0x91, 0x11, 0x41, 0x4f, 0x67, 0xdc, 0xea, 0x97, 0xf2, 0xcf, 0xce, 0xf0, 0xb4, 0xe6, 0x73,
      0x96, 0xac, 0x74, 0x22, 0xe7, 0xad, 0x35, 0x85, 0xe2, 0xf9, 0x37, 0xe8, 0x1c, 0x75, 0xdf, 0x6e,
      0x47, 0xf1, 0x1a, 0x71, 0x1d, 0x29, 0xc5, 0x89, 0x6f, 0xb7, 0x62, 0x0e, 0xaa, 0x18, 0xbe, 0x1b,
      0xfc, 0x56, 0x3e, 0x4b, 0xc6, 0xd2, 0x79, 0x20, 0x9a, 0xdb, 0xc0, 0xfe, 0x78, 0xcd, 0x5a, 0xf4,
      0x1f, 0xdd, 0xa8, 0x33, 0x88, 0x07, 0xc7, 0x31, 0xb1, 0x12, 0x10, 0x59, 0x27, 0x80, 0xec, 0x5f,
      0x60, 0x51, 0x7f, 0xa9, 0x19, 0xb5, 0x4a, 0x0d, 0x2d, 0xe5, 0x7a, 0x9f, 0x93, 0xc9, 0x9c, 0xef,
      0xa0, 0xe0, 0x3b, 0x4d, 0xae, 0x2a, 0xf5, 0xb0, 0xc8, 0xeb, 0xbb, 0x3c, 0x83, 0x53, 0x99, 0x61,
      0x17, 0x2b, 0x04, 0x7e, 0xba, 0x77, 0xd6, 0x26, 0xe1, 0x69, 0x14, 0x63, 0x55, 0x21, 0x0c, 0x7d]"

definition sub_byte :: "byte \<Rightarrow> byte" where
  "sub_byte b = aes_sbox ! unat b"

definition inv_sub_byte :: "byte \<Rightarrow> byte" where
  "inv_sub_byte b = aes_inv_sbox ! unat b"

definition xtime :: "byte \<Rightarrow> byte" where
  "xtime b = push_bit 1 b XOR (if bit b 7 then 27 else 0)"

text \<open>The state is the block in input order: byte \<open>r + 4 * c\<close> is row \<open>r\<close> of column \<open>c\<close>.\<close>

definition shift_rows :: "bytes \<Rightarrow> bytes" where
  "shift_rows s = map (\<lambda>i. s ! i) [0, 5, 10, 15, 4, 9, 14, 3, 8, 13, 2, 7, 12, 1, 6, 11]"

definition inv_shift_rows :: "bytes \<Rightarrow> bytes" where
  "inv_shift_rows s = map (\<lambda>i. s ! i) [0, 13, 10, 7, 4, 1, 14, 11, 8, 5, 2, 15, 12, 9, 6, 3]"

definition mul2 :: "byte \<Rightarrow> byte" where "mul2 a = xtime a"
definition mul3 :: "byte \<Rightarrow> byte" where "mul3 a = xtime a XOR a"
definition mul9 :: "byte \<Rightarrow> byte" where "mul9 a = xtime (xtime (xtime a)) XOR a"
definition mul11 :: "byte \<Rightarrow> byte" where "mul11 a = xtime (xtime (xtime a)) XOR xtime a XOR a"
definition mul13 :: "byte \<Rightarrow> byte" where "mul13 a = xtime (xtime (xtime a)) XOR xtime (xtime a) XOR a"
definition mul14 :: "byte \<Rightarrow> byte" where "mul14 a = xtime (xtime (xtime a)) XOR xtime (xtime a) XOR xtime a"

definition mix_column :: "byte \<Rightarrow> byte \<Rightarrow> byte \<Rightarrow> byte \<Rightarrow> bytes" where
  "mix_column a b c d =
     [mul2 a XOR mul3 b XOR c XOR d, a XOR mul2 b XOR mul3 c XOR d,
      a XOR b XOR mul2 c XOR mul3 d, mul3 a XOR b XOR c XOR mul2 d]"

definition inv_mix_column :: "byte \<Rightarrow> byte \<Rightarrow> byte \<Rightarrow> byte \<Rightarrow> bytes" where
  "inv_mix_column a b c d =
     [mul14 a XOR mul11 b XOR mul13 c XOR mul9 d, mul9 a XOR mul14 b XOR mul11 c XOR mul13 d,
      mul13 a XOR mul9 b XOR mul14 c XOR mul11 d, mul11 a XOR mul13 b XOR mul9 c XOR mul14 d]"

fun mix_columns :: "bytes \<Rightarrow> bytes" where
  "mix_columns (a # b # c # d # rest) = mix_column a b c d @ mix_columns rest"
| "mix_columns _ = []"

fun inv_mix_columns :: "bytes \<Rightarrow> bytes" where
  "inv_mix_columns (a # b # c # d # rest) = inv_mix_column a b c d @ inv_mix_columns rest"
| "inv_mix_columns _ = []"

text \<open>Key expansion: the next round key from the previous one and the round constant.\<close>

definition next_round_key :: "byte \<Rightarrow> bytes \<Rightarrow> bytes" where
  "next_round_key rcon k =
     (let w0 = xor_bytes (take 4 k)
                 (xor_bytes (map sub_byte [k ! 13, k ! 14, k ! 15, k ! 12]) [rcon, 0, 0, 0]);
          w1 = xor_bytes (take 4 (drop 4 k)) w0;
          w2 = xor_bytes (take 4 (drop 8 k)) w1;
          w3 = xor_bytes (take 4 (drop 12 k)) w2
      in w0 @ w1 @ w2 @ w3)"

primrec expand_keys :: "bytes \<Rightarrow> bytes \<Rightarrow> bytes list" where
  "expand_keys [] k = [k]"
| "expand_keys (rcon # rcons) k = k # expand_keys rcons (next_round_key rcon k)"

definition key_expansion :: "bytes \<Rightarrow> bytes list" where
  "key_expansion key = expand_keys [1, 2, 4, 8, 16, 32, 64, 128, 27, 54] key"

definition aes_round :: "bytes \<Rightarrow> bytes \<Rightarrow> bytes" where
  "aes_round s rk = xor_bytes (mix_columns (shift_rows (map sub_byte s))) rk"

definition aes_inv_round :: "bytes \<Rightarrow> bytes \<Rightarrow> bytes" where
  "aes_inv_round s rk = map inv_sub_byte (inv_shift_rows (inv_mix_columns (xor_bytes s rk)))"

definition aes128_encrypt_block :: "bytes \<Rightarrow> bytes \<Rightarrow> bytes" where
  "aes128_encrypt_block key blk =
     (let rks = key_expansion key;
          s = foldl aes_round (xor_bytes blk (rks ! 0)) (take 9 (drop 1 rks))
      in xor_bytes (shift_rows (map sub_byte s)) (rks ! 10))"

definition aes128_decrypt_block :: "bytes \<Rightarrow> bytes \<Rightarrow> bytes" where
  "aes128_decrypt_block key blk =
     (let rks = key_expansion key;
          s = map inv_sub_byte (inv_shift_rows (xor_bytes blk (rks ! 10)))
      in xor_bytes (foldl aes_inv_round s (rev (take 9 (drop 1 rks)))) (rks ! 0))"

fun cbc_encrypt :: "bytes \<Rightarrow> bytes \<Rightarrow> bytes list \<Rightarrow> bytes list" where
  "cbc_encrypt key prev [] = []"
| "cbc_encrypt key prev (b # bs) =
     (let c = aes128_encrypt_block key (xor_bytes b prev) in c # cbc_encrypt key c bs)"

fun cbc_decrypt :: "bytes \<Rightarrow> bytes \<Rightarrow> bytes list \<Rightarrow> bytes list" where
  "cbc_decrypt key prev [] = []"
| "cbc_decrypt key prev (c # cs) =
     xor_bytes (aes128_decrypt_block key c) prev # cbc_decrypt key c cs"

definition pkcs7_pad :: "bytes \<Rightarrow> bytes" where
  "pkcs7_pad d = (let n = 16 - length d mod 16 in d @ replicate n (of_nat n))"

definition pkcs7_unpad :: "bytes \<Rightarrow> error + bytes" where
  "pkcs7_unpad d =
     (if d = [] then Inl ValueError
      else let n = unat (last d) in
        if n = 0 \<or> n > 16 \<or> \<not> list_all (\<lambda>b. b = last d) (drop (length d - n) d)
        then Inl ValueError
        else Inr (take (length d - n) d))"

subsection \<open>Fernet (\<open>cryptography.fernet\<close>)\<close>

record fernet =
  signing_key :: bytes
  fernet_encryption_key :: bytes

text \<open>The constructor \<open>Fernet(key)\<close>: the key is 32 bytes in URL-safe base64.\<close>

definition Fernet :: "bytes \<Rightarrow> error + fernet" where
  "Fernet key =
     (case urlsafe_b64decode key of
        Inl e \<Rightarrow> Inl ValueError
      | Inr k \<Rightarrow>
          if length k \<noteq> 32 then Inl ValueError
          else Inr \<lparr>signing_key = take 16 k, fernet_encryption_key = drop 16 k\<rparr>)"

text \<open>
  \<open>Fernet.encrypt\<close> reads the clock (\<open>int(time.time())\<close>, written as 8 bytes) and draws
  a 16-byte IV from \<open>os.urandom\<close>; both are arguments here.
\<close>

definition fernet_encrypt :: "fernet \<Rightarrow> 64 word \<Rightarrow> bytes \<Rightarrow> bytes \<Rightarrow> error + bytes" where
  "fernet_encrypt f current_time iv plaintext =
     (if length iv \<noteq> 16 then Inl ValueError
      else
        let padded_data = pkcs7_pad plaintext;
            ciphertext = concat (cbc_encrypt (fernet_encryption_key f) iv (blocks_of 16 padded_data));
            basic_parts = [128] @ be64_bytes current_time @ iv @ ciphertext;
            hmac = hmac_sha256 (signing_key f) basic_parts
        in Inr (urlsafe_b64encode (basic_parts @ hmac)))"

text \<open>\<open>Fernet.decrypt(token)\<close> with no \<open>ttl\<close>: the timestamp of the token is not checked.\<close>

definition fernet_decrypt :: "fernet \<Rightarrow> bytes \<Rightarrow> error + bytes" where
  "fernet_decrypt f token =
     (case urlsafe_b64decode token of
        Inl e \<Rightarrow> Inl InvalidToken
      | Inr d \<Rightarrow>
          if d = [] \<or> hd d \<noteq> 128 then Inl InvalidToken
          else if length d < 9 then Inl InvalidToken
          else if hmac_sha256 (signing_key f) (take (length d - 32) d) \<noteq> drop (length d - 32) d
          then Inl InvalidToken
          else
            let iv = take 16 (drop 9 d);
                ciphertext = take (length d - 32 - 25) (drop 25 d)
            in if length iv \<noteq> 16 then Inl ValueError
               else if length ciphertext mod 16 \<noteq> 0 then Inl InvalidToken
               else (case pkcs7_unpad (concat (cbc_decrypt (fernet_encryption_key f) iv (blocks_of 16 ciphertext))) of
                       Inl e \<Rightarrow> Inl InvalidToken
                     | Inr plaintext \<Rightarrow> Inr plaintext))"

section \<open>Key derivation and the cipher of the program\<close>

text \<open>\<open>generate_encryption_key\<close> (lines 230-238).\<close>

definition generate_encryption_key :: "string \<Rightarrow> bytes \<Rightarrow> bytes" where
  "generate_encryption_key password salt_bytes =
     urlsafe_b64encode (pbkdf2_hmac_sha256 (map of_char password) salt_bytes 100000 32)"

text \<open>\<open>encrypt_file\<close> (lines 240-243) and \<open>decrypt_file\<close> (lines 245-248).\<close>

definition encrypt_file :: "64 word \<Rightarrow> bytes \<Rightarrow> bytes \<Rightarrow> bytes \<Rightarrow> error + bytes" where
  "encrypt_file current_time iv file_data key =
     (case Fernet key of Inl e \<Rightarrow> Inl e | Inr f \<Rightarrow> fernet_encrypt f current_time iv file_data)"

definition decrypt_file :: "bytes \<Rightarrow> bytes \<Rightarrow> error + bytes" where
  "decrypt_file encrypted_data key =
     (case Fernet key of Inl e \<Rightarrow> Inl e | Inr f \<Rightarrow> fernet_decrypt f encrypted_data)"

section \<open>Data model\<close>

subsection \<open>Naive datetimes\<close>

text \<open>
  \<open>datetime.now()\<close> returns a naive datetime: the seven fields below. The clock is an
  input of the model: every call of \<open>datetime.now()\<close> in the source is a separate
  argument of the function that embeds the enclosing code.
\<close>

record datetime =
  year :: nat
  month :: nat
  day :: nat
  hour :: nat
  minute :: nat
  second :: nat
  microsecond :: nat

text \<open>The constructor \<open>datetime(y, mo, d, h, mi, s, us)\<close>.\<close>

definition mk_datetime :: "nat \<Rightarrow> nat \<Rightarrow> nat \<Rightarrow> nat \<Rightarrow> nat \<Rightarrow> nat \<Rightarrow> nat \<Rightarrow> datetime" where
  "mk_datetime y mo d h mi s us =
     \<lparr>year = y, month = mo, day = d, hour = h, minute = mi, second = s, microsecond = us\<rparr>"

definition datetime_fields :: "datetime \<Rightarrow> nat list" where
  "datetime_fields d = [year d, month d, day d, hour d, minute d, second d, microsecond d]"

text \<open>Comparison of naive datetimes is the comparison of their field tuples.\<close>

fun lex_gt :: "nat list \<Rightarrow> nat list \<Rightarrow> bool" where
  "lex_gt (a # as) (b # bs) = (a > b \<or> (a = b \<and> lex_gt as bs))"
| "lex_gt _ _ = False"

definition datetime_gt :: "datetime \<Rightarrow> datetime \<Rightarrow> bool" where
  "datetime_gt a b = lex_gt (datetime_fields a) (datetime_fields b)"

definition is_leap :: "nat \<Rightarrow> bool" where
  "is_leap y = (y mod 4 = 0 \<and> (y mod 100 \<noteq> 0 \<or> y mod 400 = 0))"

definition days_in_month :: "nat \<Rightarrow> nat \<Rightarrow> nat" where
  "days_in_month y m =
     (if m = 2 then (if is_leap y then 29 else 28)
      else if m = 4 \<or> m = 6 \<or> m = 9 \<or> m = 11 then 30 else 31)"

text \<open>
  \<open>d + timedelta(hours=24)\<close>: the timedelta is normalised to one day, the sum keeps the
  time of day and moves the date to the next calendar day; past 9999-12-31 the
  addition raises OverflowError.
\<close>

definition datetime_add_24h :: "datetime \<Rightarrow> error + datetime" where
  "datetime_add_24h d =
     (if day d < days_in_month (year d) (month d) then Inr (d\<lparr>day := day d + 1\<rparr>)
      else if month d < 12 then Inr (d\<lparr>month := month d + 1, day := 1\<rparr>)
      else if year d < 9999 then Inr (d\<lparr>year := year d + 1, month := 1, day := 1\<rparr>)
      else Inl OverflowError)"

subsection \<open>Share records and the session state\<close>

text \<open>The dictionaries built at lines 323-328 and 330-335 of \<open>main.py\<close>.\<close>

record file_entry =
  name :: string
  data :: bytes
  size_f :: nat
  encrypted :: bool

record share_info =
  files :: "file_entry list"
  salt :: bytes
  created :: datetime
  expires :: datetime

text \<open>
  \<open>st.session_state\<close>. A Python dict keeps insertion order and has unique keys: it is an
  association list updated with \<open>AList.update\<close> (replace in place, else append) and
  \<open>AList.delete\<close>.
\<close>

record session_state =
  session_files :: "(string \<times> share_info) list"
  session_share_code :: "string option"
  session_encryption_key :: "bytes option"
  current_download :: "string option"

section \<open>Share codes\<close>

definition digit_char :: "nat \<Rightarrow> char" where
  "digit_char d = ''0123456789'' ! d"

text \<open>\<open>str(n)\<close> for a non-negative integer.\<close>

function str_nat :: "nat \<Rightarrow> string" where
  "str_nat n = (if n < 10 then [digit_char n] else str_nat (n div 10) @ [digit_char (n mod 10)])"
  by pat_completeness auto
termination
  by (relation "measure id") auto

text \<open>
  \<open>generate_share_code\<close> (lines 226-228). Its only input is the random source:
  \<open>randbelow10 i\<close> is what the \<open>i\<close>-th call of \<open>secrets.randbelow(10)\<close> returns.
\<close>

definition generate_share_code :: "(nat \<Rightarrow> nat) \<Rightarrow> string" where
  "generate_share_code randbelow10 = concat (map (\<lambda>i. str_nat (randbelow10 i)) [0..<6])"

definition digit_val :: "char \<Rightarrow> nat" where
  "digit_val c = of_char c - 48"

definition is_digit :: "char \<Rightarrow> bool" where
  "is_digit c = (c \<in> set ''0123456789'')"

text \<open>The outcome of the random source that spells a given code: draw \<open>i\<close> is its \<open>i\<close>-th digit.\<close>

definition draws_of :: "string \<Rightarrow> nat \<Rightarrow> nat" where
  "draws_of code i = digit_val (code ! i)"

section \<open>Retrieval and the expiry sweep\<close>

datatype retrieve_outcome = FilesFound | CodeExpired | InvalidCode

text \<open>The "Retrieve Files" button handler (lines 394-405); \<open>now\<close> is the clock reading of line 399.\<close>

definition retrieve_files :: "datetime \<Rightarrow> string \<Rightarrow> session_state \<Rightarrow> retrieve_outcome \<times> session_state" where
  "retrieve_files now receive_code st =
     (case map_of (session_files st) receive_code of
        Some file_info \<Rightarrow>
          if datetime_gt now (expires file_info) then (CodeExpired, st)
          else (FilesFound, st\<lparr>current_download := Some receive_code\<rparr>)
      | None \<Rightarrow> (InvalidCode, st))"

text \<open>
  The cleanup at the end of every page run (lines 544-550). The loop reads the clock once
  per record: \<open>now_at code\<close> is the reading taken while the record of \<open>code\<close> is examined.
\<close>

definition expired_codes :: "(string \<Rightarrow> datetime) \<Rightarrow> (string \<times> share_info) list \<Rightarrow> string list" where
  "expired_codes now_at items =
     map fst (filter (\<lambda>(code, file_info). datetime_gt (now_at code) (expires file_info)) items)"

definition cleanup_expired :: "(string \<Rightarrow> datetime) \<Rightarrow> (string \<times> share_info) list \<Rightarrow> (string \<times> share_info) list" where
  "cleanup_expired now_at fs = foldl (\<lambda>d code. AList.delete code d) fs (expired_codes now_at fs)"

section \<open>Creating a share\<close>

text \<open>An uploaded file: \<open>file.name\<close> and the bytes of \<open>file.getvalue()\<close>.\<close>

type_synonym uploaded_file = "string \<times> bytes"

text \<open>
  The loop of lines 317-328. Every \<open>encrypt_file\<close> call reads the clock and draws an
  IV: \<open>env i\<close> holds both for the \<open>i\<close>-th uploaded file. An exception of
  \<open>encrypt_file\<close> leaves the loop.
\<close>

fun store_files ::
  "bool \<Rightarrow> bytes \<Rightarrow> (nat \<Rightarrow> 64 word \<times> bytes) \<Rightarrow> nat \<Rightarrow> uploaded_file list \<Rightarrow> error + file_entry list" where
  "store_files use_encryption key env i [] = Inr []"
| "store_files use_encryption key env i ((file_name, file_value) # rest) =
     (case (if use_encryption then encrypt_file (fst (env i)) (snd (env i)) file_value key
            else Inr file_value) of
        Inl e \<Rightarrow> Inl e
      | Inr d \<Rightarrow>
          (case store_files use_encryption key env (Suc i) rest of
             Inl e \<Rightarrow> Inl e
           | Inr file_data \<Rightarrow>
               Inr (\<lparr>name = file_name, data = d, size_f = length file_value,
                     encrypted = use_encryption\<rparr> # file_data)))"

text \<open>
  The "Generate Share Code" button handler (lines 307-337), reached when files are
  uploaded (line 294). Its inputs besides the session state, the uploaded files and the
  checkbox: the six random digits, the 16 bytes of \<open>secrets.token_bytes\<close>, the clock
  and IV of each encryption, and the two readings of \<open>datetime.now()\<close> at lines 333
  and 334, in this order.
\<close>

definition create_share ::
  "(nat \<Rightarrow> nat) \<Rightarrow> bytes \<Rightarrow> (nat \<Rightarrow> 64 word \<times> bytes) \<Rightarrow> datetime \<Rightarrow> datetime \<Rightarrow>
   uploaded_file list \<Rightarrow> bool \<Rightarrow> session_state \<Rightarrow> error + session_state" where
  "create_share randbelow10 token_bytes16 env now1 now2 uploaded_files use_encryption st =
     (if uploaded_files = [] then Inr st
      else
        let share_code = generate_share_code randbelow10;
            key = generate_encryption_key share_code token_bytes16
        in case store_files use_encryption key env 0 uploaded_files of
             Inl e \<Rightarrow> Inl e
           | Inr file_data \<Rightarrow>
               (case datetime_add_24h now2 of
                  Inl e \<Rightarrow> Inl e
                | Inr in_24h \<Rightarrow>
                    Inr (st\<lparr>session_files :=
                              AList.update share_code
                                \<lparr>files = file_data, salt = token_bytes16,
                                  created = now1, expires = in_24h\<rparr>
                                (session_files st),
                            session_share_code := Some share_code,
                            session_encryption_key := Some key\<rparr>)))"

section \<open>Downloads\<close>

text \<open>
  One pass of the per-file loop (lines 414-439): the download button with the bytes it
  serves, or the error message when decryption raised.
\<close>

datatype download_widget = DownloadButton string bytes | DecryptionFailed

definition download_file :: "string \<Rightarrow> share_info \<Rightarrow> file_entry \<Rightarrow> download_widget" where
  "download_file code file_info file_data =
     (if encrypted file_data then
        (case decrypt_file (data file_data) (generate_encryption_key code (salt file_info)) of
           Inl e \<Rightarrow> DecryptionFailed
         | Inr d \<Rightarrow> DownloadButton (name file_data) d)
      else DownloadButton (name file_data) (data file_data))"

text \<open>
  The ZIP builders (lines 451-462 and 473-483). The archive is modelled by the sequence
  of \<open>writestr(name, data)\<close> calls that fill it; the container format and the compression
  are the library's. Decryption is not guarded here: its exception ends the build.
\<close>

fun zip_write :: "string \<Rightarrow> share_info \<Rightarrow> file_entry list \<Rightarrow> error + (string \<times> bytes) list" where
  "zip_write code file_info [] = Inr []"
| "zip_write code file_info (file_data # rest) =
     (case (if encrypted file_data
            then decrypt_file (data file_data) (generate_encryption_key code (salt file_info))
            else Inr (data file_data)) of
        Inl e \<Rightarrow> Inl e
      | Inr d \<Rightarrow>
          (case zip_write code file_info rest of
             Inl e \<Rightarrow> Inl e
           | Inr entries \<Rightarrow> Inr ((name file_data, d) # entries)))"

text \<open>Both buttons are offered for records of more than one file; \<open>None\<close> is no button.\<close>

definition download_selected_zip ::
  "string list \<Rightarrow> string \<Rightarrow> share_info \<Rightarrow> (error + (string \<times> bytes) list) option" where
  "download_selected_zip selected code file_info =
     (if length (files file_info) > 1 \<and> selected \<noteq> []
      then Some (zip_write code file_info (filter (\<lambda>f. name f \<in> set selected) (files file_info)))
      else None)"

definition download_all_zip :: "string \<Rightarrow> share_info \<Rightarrow> (error + (string \<times> bytes) list) option" where
  "download_all_zip code file_info =
     (if length (files file_info) > 1 then Some (zip_write code file_info (files file_info))
      else None)"

section \<open>Persistence\<close>

subsection \<open>Timestamps as text\<close>

text \<open>The format directive \<open>%0wd\<close>.\<close>

definition zero_pad :: "nat \<Rightarrow> nat \<Rightarrow> string" where
  "zero_pad w n = replicate (w - length (str_nat n)) CHR ''0'' @ str_nat n"

text \<open>\<open>datetime.isoformat()\<close> of a naive datetime: the fraction is written when it is not zero.\<close>

definition isoformat :: "datetime \<Rightarrow> string" where
  "isoformat d =
     zero_pad 4 (year d) @ ''-'' @ zero_pad 2 (month d) @ ''-'' @ zero_pad 2 (day d) @ ''T'' @
     zero_pad 2 (hour d) @ '':'' @ zero_pad 2 (minute d) @ '':'' @ zero_pad 2 (second d) @
     (if microsecond d \<noteq> 0 then ''.'' @ zero_pad 6 (microsecond d) else [])"

text \<open>The ranges the \<open>datetime\<close> constructor enforces.\<close>

definition valid_datetime :: "datetime \<Rightarrow> bool" where
  "valid_datetime d =
     (1 \<le> year d \<and> year d \<le> 9999 \<and> 1 \<le> month d \<and> month d \<le> 12 \<and>
      1 \<le> day d \<and> day d \<le> days_in_month (year d) (month d) \<and>
      hour d < 24 \<and> minute d < 60 \<and> second d < 60 \<and> microsecond d < 1000000)"

definition parse_digits :: "string \<Rightarrow> nat option" where
  "parse_digits s =
     (if list_all is_digit s then Some (foldl (\<lambda>n c. 10 * n + digit_val c) 0 s) else None)"

text \<open>
  \<open>datetime.fromisoformat\<close> on the two layouts that \<open>isoformat\<close> writes,
  \<open>YYYY-MM-DDTHH:MM:SS\<close> and \<open>YYYY-MM-DDTHH:MM:SS.ffffff\<close>, with any separator
  character between date and time. The library reads further ISO 8601 spellings; they
  never reach the program through \<open>save_shared_data\<close> and are answered with ValueError
  here.
\<close>

definition fromisoformat :: "string \<Rightarrow> error + datetime" where
  "fromisoformat s =
     (if (length s = 19 \<or> length s = 26 \<and> s ! 19 = CHR ''.'') \<and>
         s ! 4 = CHR ''-'' \<and> s ! 7 = CHR ''-'' \<and> s ! 13 = CHR '':'' \<and> s ! 16 = CHR '':''
      then
        (case those [parse_digits (take 4 s), parse_digits (take 2 (drop 5 s)),
                     parse_digits (take 2 (drop 8 s)), parse_digits (take 2 (drop 11 s)),
                     parse_digits (take 2 (drop 14 s)), parse_digits (take 2 (drop 17 s)),
                     parse_digits (drop 20 s)] of
           Some [y, mo, d, h, mi, sec, us] \<Rightarrow>
             if valid_datetime (mk_datetime y mo d h mi sec us)
             then Inr (mk_datetime y mo d h mi sec us) else Inl ValueError
         | _ \<Rightarrow> Inl ValueError)
      else Inl ValueError)"

subsection \<open>The JSON document\<close>

text \<open>
  The value handed to \<open>json.dump\<close> and received from \<open>json.load\<close>: a dictionary from
  codes to objects of strings, with a list of file objects. The JSON text itself is the
  library's: writing such a value and reading it back yields the value.
\<close>

record file_json =
  json_name :: string
  json_data :: string
  json_size :: nat
  json_encrypted :: bool

record info_json =
  json_salt :: string
  json_created :: string
  json_expires :: string
  json_files :: "file_json list"

text \<open>\<open>bytes.decode()\<close> on ASCII bytes, and \<open>b64decode\<close> of a string argument.\<close>

definition bytes_decode :: "bytes \<Rightarrow> string" where
  "bytes_decode bs = map (\<lambda>b. char_of (unat b)) bs"

definition b64decode_str :: "string \<Rightarrow> error + bytes" where
  "b64decode_str s =
     (if list_all (\<lambda>c. (of_char c :: nat) < 128) s then b64decode (map of_char s)
      else Inl ValueError)"

text \<open>\<open>save_shared_data\<close> (lines 30-48): the document written to \<open>shared_files.json\<close>.\<close>

definition file_to_json :: "file_entry \<Rightarrow> file_json" where
  "file_to_json file =
     \<lparr>json_name = name file, json_data = bytes_decode (b64encode (data file)),
      json_size = size_f file, json_encrypted = encrypted file\<rparr>"

definition save_shared_data :: "(string \<times> share_info) list \<Rightarrow> (string \<times> info_json) list" where
  "save_shared_data fs =
     foldl (\<lambda>d (code, info).
              AList.update code
                \<lparr>json_salt = bytes_decode (b64encode (salt info)),
                  json_created = isoformat (created info),
                  json_expires = isoformat (expires info),
                  json_files = map file_to_json (files info)\<rparr> d)
       [] fs"

text \<open>
  \<open>load_shared_data\<close> (lines 17-28). The first argument is the document in the file,
  \<open>None\<close> when the file does not exist; an exception of a decoder leaves the function.
\<close>

fun load_files :: "file_json list \<Rightarrow> error + file_entry list" where
  "load_files [] = Inr []"
| "load_files (file # rest) =
     (case b64decode_str (json_data file) of
        Inl e \<Rightarrow> Inl e
      | Inr d \<Rightarrow>
          (case load_files rest of
             Inl e \<Rightarrow> Inl e
           | Inr fs \<Rightarrow>
               Inr (\<lparr>name = json_name file, data = d, size_f = json_size file,
                     encrypted = json_encrypted file\<rparr> # fs)))"

definition load_info :: "info_json \<Rightarrow> error + share_info" where
  "load_info info =
     (case b64decode_str (json_salt info) of
        Inl e \<Rightarrow> Inl e
      | Inr s \<Rightarrow>
          (case fromisoformat (json_created info) of
             Inl e \<Rightarrow> Inl e
           | Inr c \<Rightarrow>
               (case fromisoformat (json_expires info) of
                  Inl e \<Rightarrow> Inl e
                | Inr x \<Rightarrow>
                    (case load_files (json_files info) of
                       Inl e \<Rightarrow> Inl e
                     | Inr fs \<Rightarrow> Inr \<lparr>files = fs, salt = s, created = c, expires = x\<rparr>))))"

fun load_items :: "(string \<times> info_json) list \<Rightarrow> error + (string \<times> share_info) list" where
  "load_items [] = Inr []"
| "load_items ((code, info) # rest) =
     (case load_info info of
        Inl e \<Rightarrow> Inl e
      | Inr i \<Rightarrow>
          (case load_items rest of Inl e \<Rightarrow> Inl e | Inr is \<Rightarrow> Inr ((code, i) # is)))"

definition load_shared_data ::
  "(string \<times> info_json) list option \<Rightarrow> session_state \<Rightarrow> error + session_state" where
  "load_shared_data file st =
     (case file of
        None \<Rightarrow> Inr st
      | Some d \<Rightarrow>
          (case load_items d of Inl e \<Rightarrow> Inl e | Inr fs \<Rightarrow> Inr (st\<lparr>session_files := fs\<rparr>)))"

section \<open>Example values\<close>

definition example_salt :: bytes where
  "example_salt = [7, 7, 7, 7, 7, 7, 7, 7, 7, 7, 7, 7, 7, 7, 7, 7]"

definition example_env :: "nat \<Rightarrow> 64 word \<times> bytes" where
  "example_env i = (1700000000, replicate 16 (of_nat i))"

definition empty_session :: session_state where
  "empty_session =
     \<lparr>session_files = [], session_share_code = None, session_encryption_key = None,
      current_download = None\<rparr>"

text \<open>A record stored on 4 March 2024 at 20:00, live until 5 March 2024 at 20:00.\<close>

definition live_share :: share_info where
  "live_share =
     \<lparr>files = [\<lparr>name = ''old.txt'', data = [111, 108, 100], size_f = 3, encrypted = False\<rparr>],
      salt = example_salt, created = mk_datetime 2024 3 4 20 0 0 0,
      expires = mk_datetime 2024 3 5 20 0 0 0\<rparr>"

text \<open>A record with two files of the same name.\<close>

definition twin_share :: share_info where
  "twin_share =
     \<lparr>files = [\<lparr>name = ''x.txt'', data = [49], size_f = 1, encrypted = False\<rparr>,
               \<lparr>name = ''x.txt'', data = [50], size_f = 1, encrypted = False\<rparr>],
      salt = example_salt, created = mk_datetime 2024 3 4 20 0 0 0,
      expires = mk_datetime 2024 3 5 20 0 0 0\<rparr>"

text \<open>A record whose first file holds every byte value once.\<close>

definition all_bytes_share :: share_info where
  "all_bytes_share =
     \<lparr>files = [\<lparr>name = ''all.bin'', data = map of_nat [0..<256], size_f = 256, encrypted = False\<rparr>,
               \<lparr>name = ''b.bin'', data = [103, 65, 255, 0], size_f = 9, encrypted = True\<rparr>],
      salt = example_salt, created = mk_datetime 2024 3 4 20 0 0 250,
      expires = mk_datetime 2024 3 5 20 0 0 251\<rparr>"






section \<open>Properties of datetimes\<close>

lemma lex_gt_trans_ge:
  "length xs = length ys \<Longrightarrow> length ys = length zs \<Longrightarrow> lex_gt ys zs \<Longrightarrow> \<not> lex_gt ys xs \<Longrightarrow> lex_gt xs zs"
proof (induction xs ys zs rule: list_induct3)
  case Nil
  then show ?case by simp
next
  case (Cons x xs y ys z zs)
  then show ?case by auto
qed

lemma datetime_gt_later:
  "datetime_gt now e \<Longrightarrow> \<not> datetime_gt now later \<Longrightarrow> datetime_gt later e"
  unfolding datetime_gt_def
  by (rule lex_gt_trans_ge [where ys = "datetime_fields now"]) (simp_all add: datetime_fields_def)

section \<open>Properties of share codes\<close>

lemma str_nat_digit: "n < 10 \<Longrightarrow> str_nat n = [digit_char n]"
  by simp

lemma digit_char_is_digit: "n < 10 \<Longrightarrow> is_digit (digit_char n)"
  unfolding is_digit_def digit_char_def by (rule nth_mem) simp

lemma generate_share_code_unfold:
  "generate_share_code r = str_nat (r 0) @ str_nat (r 1) @ str_nat (r 2) @ str_nat (r 3) @ str_nat (r 4) @ str_nat (r 5)"
  unfolding generate_share_code_def by (simp add: upt_rec eval_nat_numeral del: str_nat.simps)

lemma generate_share_code_length: "\<forall>i<6. r i < 10 \<Longrightarrow> length (generate_share_code r) = 6"
  unfolding generate_share_code_unfold by (simp add: str_nat_digit del: str_nat.simps)

lemma generate_share_code_digits:
  assumes "\<forall>i<6. r i < 10"
  shows "list_all is_digit (generate_share_code r)"
  unfolding generate_share_code_unfold using assms
  by (simp add: str_nat_digit digit_char_is_digit del: str_nat.simps)

lemma digit_char_digit_val: "is_digit c \<Longrightarrow> digit_val c < 10 \<and> digit_char (digit_val c) = c"
  unfolding is_digit_def digit_val_def digit_char_def by auto

lemma generate_share_code_draws_of:
  assumes "length code = 6" and "list_all is_digit code"
  shows "generate_share_code (draws_of code) = code"
proof -
  from assms(1) obtain a b c d e f where code: "code = [a, b, c, d, e, f]"
    by (auto simp: eval_nat_numeral length_Suc_conv)
  with assms(2) have "is_digit a" "is_digit b" "is_digit c" "is_digit d" "is_digit e" "is_digit f"
    by simp_all
  then show ?thesis
    unfolding generate_share_code_unfold code draws_of_def
    by (simp add: str_nat_digit digit_char_digit_val del: str_nat.simps)
qed

lemma draws_of_bound:
  assumes "length code = 6" and "list_all is_digit code"
  shows "\<forall>i<6. draws_of code i < 10"
  using assms unfolding draws_of_def by (simp add: list_all_length digit_char_digit_val)

text \<open>
  C1 (as the code has it): the code returned by \<open>generate_share_code\<close> is six decimal
  digits fixed by the six random draws alone; no set of existing codes is consulted, and
  every six-digit code, a live one included, is returned for some outcome of the draws.
\<close>

theorem generate_share_code_any_code:
  "((\<forall>i<6. r i < 10) \<longrightarrow>
      length (generate_share_code r) = 6 \<and> list_all is_digit (generate_share_code r)) \<and>
   (length code = 6 \<and> list_all is_digit code \<longrightarrow>
      (\<forall>i<6. draws_of code i < 10) \<and> generate_share_code (draws_of code) = code)"
  using generate_share_code_length generate_share_code_digits
    generate_share_code_draws_of draws_of_bound by blast

theorem generate_share_code_any_code_witness:
  "length (generate_share_code (draws_of ''407193'')) = 6 \<and>
   list_all is_digit (generate_share_code (draws_of ''407193'')) \<and>
   length ''407193'' = 6 \<and> list_all is_digit ''407193'' \<and>
   generate_share_code (draws_of ''407193'') = ''407193''"
proof -
  have h: "length ''407193'' = 6 \<and> list_all is_digit ''407193''"
    by (simp add: is_digit_def)
  from generate_share_code_any_code [of "draws_of ''407193''" "''407193''"] h
  show ?thesis by simp
qed

text \<open>
  C1 (as the spec states it) fails: with the live set \<open>{''000000''}\<close> and six draws of 0 the
  generator returns the live code.
\<close>

theorem generate_share_code_collision:
  "generate_share_code (draws_of ''000000'') \<in> {''000000''}"
  by (simp add: generate_share_code_unfold draws_of_def digit_val_def digit_char_def)

section \<open>Properties of retrieval and expiry\<close>

lemma map_of_foldl_delete:
  "map_of (foldl (\<lambda>d code. AList.delete code d) fs cs) k =
     (if k \<in> set cs then None else map_of fs k)"
  by (induction cs arbitrary: fs) (auto simp: delete_conv)

lemma expired_codes_member:
  assumes "map_of fs code = Some file_info" and "datetime_gt (now_at code) (expires file_info)"
  shows "code \<in> set (expired_codes now_at fs)"
proof -
  from assms(1) have "(code, file_info) \<in> set fs" by (rule map_of_SomeD)
  with assms(2) show ?thesis unfolding expired_codes_def by force
qed

text \<open>
  C4: a stored record whose \<open>expires\<close> lies before the clock reading \<open>now\<close> is answered
  with the expiry error by the retrieve handler, which leaves the session state as it
  was (the record is not selected for download), and the cleanup sweep, reading the clock
  no earlier than \<open>now\<close>, deletes the record from the store.
\<close>

theorem expired_record_rejected_and_evicted:
  assumes "map_of (session_files st) code = Some file_info"
    and "datetime_gt now (expires file_info)"
    and "\<not> datetime_gt now (now_at code)"
  shows "retrieve_files now code st = (CodeExpired, st) \<and>
         map_of (cleanup_expired now_at (session_files st)) code = None"
proof -
  have "retrieve_files now code st = (CodeExpired, st)"
    using assms(1,2) by (simp add: retrieve_files_def)
  moreover have "datetime_gt (now_at code) (expires file_info)"
    using assms(2,3) by (rule datetime_gt_later)
  then have "code \<in> set (expired_codes now_at (session_files st))"
    using assms(1) by (simp add: expired_codes_member)
  then have "map_of (cleanup_expired now_at (session_files st)) code = None"
    unfolding cleanup_expired_def by (simp add: map_of_foldl_delete)
  ultimately show ?thesis by simp
qed

theorem expired_record_rejected_and_evicted_witness:
  "retrieve_files (mk_datetime 2024 3 2 12 0 1 0) ''123456''
     \<lparr>session_files = [(''123456'',
        \<lparr>files = [\<lparr>name = ''a.txt'', data = [104, 105], size_f = 2, encrypted = False\<rparr>],
         salt = [], created = mk_datetime 2024 3 1 12 0 0 0,
         expires = mk_datetime 2024 3 2 12 0 0 0\<rparr>)],
      session_share_code = None, session_encryption_key = None, current_download = None\<rparr>
   = (CodeExpired,
     \<lparr>session_files = [(''123456'',
        \<lparr>files = [\<lparr>name = ''a.txt'', data = [104, 105], size_f = 2, encrypted = False\<rparr>],
         salt = [], created = mk_datetime 2024 3 1 12 0 0 0,
         expires = mk_datetime 2024 3 2 12 0 0 0\<rparr>)],
      session_share_code = None, session_encryption_key = None, current_download = None\<rparr>) \<and>
   map_of (cleanup_expired (\<lambda>code. mk_datetime 2024 3 2 12 0 1 5)
     [(''123456'',
        \<lparr>files = [\<lparr>name = ''a.txt'', data = [104, 105], size_f = 2, encrypted = False\<rparr>],
         salt = [], created = mk_datetime 2024 3 1 12 0 0 0,
         expires = mk_datetime 2024 3 2 12 0 0 0\<rparr>)]) ''123456'' = None"
proof -
  let ?info = "\<lparr>files = [\<lparr>name = ''a.txt'', data = [104, 105], size_f = 2, encrypted = False\<rparr>],
         salt = [], created = mk_datetime 2024 3 1 12 0 0 0,
         expires = mk_datetime 2024 3 2 12 0 0 0\<rparr>"
  let ?st = "\<lparr>session_files = [(''123456'', ?info)],
      session_share_code = None, session_encryption_key = None, current_download = None\<rparr>"
  have h1: "map_of (session_files ?st) ''123456'' = Some ?info" by simp
  have h2: "datetime_gt (mk_datetime 2024 3 2 12 0 1 0) (expires ?info)"
    by (simp add: datetime_gt_def datetime_fields_def mk_datetime_def)
  have h3: "\<not> datetime_gt (mk_datetime 2024 3 2 12 0 1 0) ((\<lambda>code. mk_datetime 2024 3 2 12 0 1 5) ''123456'')"
    by (simp add: datetime_gt_def datetime_fields_def mk_datetime_def)
  from expired_record_rejected_and_evicted [OF h1 h2 h3] show ?thesis by simp
qed

section \<open>Properties of share creation\<close>

lemma store_files_unencrypted:
  "store_files False key env i ups =
     Inr (map (\<lambda>(n, v). \<lparr>name = n, data = v, size_f = length v, encrypted = False\<rparr>) ups)"
  by (induction ups arbitrary: i) auto

lemma store_files_names:
  "store_files enc key env i ups = Inr file_data \<Longrightarrow>
     map name file_data = map fst ups \<and> map size_f file_data = map (\<lambda>u. length (snd u)) ups \<and>
     list_all (\<lambda>f. encrypted f = enc) file_data"
  by (induction ups arbitrary: i file_data) (auto split: sum.splits if_splits)

lemma create_share_unencrypted:
  assumes "ups \<noteq> []" and "datetime_add_24h now2 = Inr in_24h"
  shows "create_share r tb env now1 now2 ups False st =
     Inr (st\<lparr>session_files :=
            AList.update (generate_share_code r)
              \<lparr>files = map (\<lambda>(n, v). \<lparr>name = n, data = v, size_f = length v, encrypted = False\<rparr>) ups,
                salt = tb, created = now1, expires = in_24h\<rparr>
              (session_files st),
          session_share_code := Some (generate_share_code r),
          session_encryption_key := Some (generate_encryption_key (generate_share_code r) tb)\<rparr>)"
  using assms by (simp add: create_share_def store_files_unencrypted Let_def)

lemma create_share_stored:
  assumes "create_share r tb env now1 now2 ups enc st = Inr st'" and "ups \<noteq> []"
  shows "\<exists>file_data in_24h.
           store_files enc (generate_encryption_key (generate_share_code r) tb) env 0 ups = Inr file_data \<and>
           datetime_add_24h now2 = Inr in_24h \<and>
           st' = st\<lparr>session_files :=
                      AList.update (generate_share_code r)
                        \<lparr>files = file_data, salt = tb, created = now1, expires = in_24h\<rparr>
                        (session_files st),
                    session_share_code := Some (generate_share_code r),
                    session_encryption_key := Some (generate_encryption_key (generate_share_code r) tb)\<rparr>"
  using assms by (auto simp: create_share_def Let_def split: sum.splits)

lemma create_share_failure:
  "create_share r tb env now1 now2 ups enc st = Inl e \<longleftrightarrow>
     ups \<noteq> [] \<and>
     (store_files enc (generate_encryption_key (generate_share_code r) tb) env 0 ups = Inl e \<or>
      (\<exists>file_data.
         store_files enc (generate_encryption_key (generate_share_code r) tb) env 0 ups = Inr file_data \<and>
         datetime_add_24h now2 = Inl e))"
  by (auto simp: create_share_def Let_def split: sum.splits)

text \<open>
  C6 (as the code has it): storing a share never fails on account of its code. The
  handler fails exactly when the encryption of an uploaded file or the addition of 24
  hours raises, whatever the store holds: a run that fails with one store fails with
  the same error with every other store. When the handler returns a state, the record
  stored under the generated code is the new one, whether or not the code was present
  before, and the records under all other codes are as they were.
\<close>

theorem create_share_overwrites:
  "(create_share r tb env now1 now2 ups enc st = Inl e \<longleftrightarrow>
      ups \<noteq> [] \<and>
      (store_files enc (generate_encryption_key (generate_share_code r) tb) env 0 ups = Inl e \<or>
       (\<exists>file_data.
          store_files enc (generate_encryption_key (generate_share_code r) tb) env 0 ups = Inr file_data \<and>
          datetime_add_24h now2 = Inl e))) \<and>
   (create_share r tb env now1 now2 ups enc st = Inl e \<longrightarrow>
      create_share r tb env now1 now2 ups enc other_st = Inl e) \<and>
   (create_share r tb env now1 now2 ups enc st = Inr st' \<and> ups \<noteq> [] \<longrightarrow>
      (\<exists>info. map_of (session_files st') (generate_share_code r) = Some info \<and>
         salt info = tb \<and> created info = now1 \<and> map name (files info) = map fst ups) \<and>
      (\<forall>c. c \<noteq> generate_share_code r \<longrightarrow>
         map_of (session_files st') c = map_of (session_files st) c))"
proof (intro conjI impI)
  show "create_share r tb env now1 now2 ups enc st = Inl e \<longleftrightarrow>
      ups \<noteq> [] \<and>
      (store_files enc (generate_encryption_key (generate_share_code r) tb) env 0 ups = Inl e \<or>
       (\<exists>file_data.
          store_files enc (generate_encryption_key (generate_share_code r) tb) env 0 ups = Inr file_data \<and>
          datetime_add_24h now2 = Inl e))"
    by (rule create_share_failure)
next
  assume "create_share r tb env now1 now2 ups enc st = Inl e"
  then show "create_share r tb env now1 now2 ups enc other_st = Inl e"
    by (simp add: create_share_failure)
next
  assume a: "create_share r tb env now1 now2 ups enc st = Inr st' \<and> ups \<noteq> []"
  then have run: "create_share r tb env now1 now2 ups enc st = Inr st'" and ne: "ups \<noteq> []"
    by simp_all
  from create_share_stored [OF run ne] obtain file_data in_24h where
    sf: "store_files enc (generate_encryption_key (generate_share_code r) tb) env 0 ups = Inr file_data"
    and st': "st' = st\<lparr>session_files :=
                      AList.update (generate_share_code r)
                        \<lparr>files = file_data, salt = tb, created = now1, expires = in_24h\<rparr>
                        (session_files st),
                    session_share_code := Some (generate_share_code r),
                    session_encryption_key := Some (generate_encryption_key (generate_share_code r) tb)\<rparr>"
    by blast
  from store_files_names [OF sf] have "map name file_data = map fst ups" by simp
  then show "\<exists>info. map_of (session_files st') (generate_share_code r) = Some info \<and>
         salt info = tb \<and> created info = now1 \<and> map name (files info) = map fst ups"
    unfolding st' by (simp add: update_conv')
  show "\<forall>c. c \<noteq> generate_share_code r \<longrightarrow>
         map_of (session_files st') c = map_of (session_files st) c"
    unfolding st' by (simp add: update_conv')
qed

lemma code_000000: "generate_share_code (draws_of ''000000'') = ''000000''"
  by (simp add: generate_share_code_unfold draws_of_def digit_val_def digit_char_def)

lemma code_123456: "generate_share_code (draws_of ''123456'') = ''123456''"
  by (simp add: generate_share_code_unfold draws_of_def digit_val_def digit_char_def)

theorem create_share_overwrites_witness:
  "(\<exists>info. map_of (session_files
       \<lparr>session_files = [(''000000'',
           \<lparr>files = [\<lparr>name = ''new.txt'', data = [110], size_f = 1, encrypted = False\<rparr>],
            salt = example_salt, created = mk_datetime 2024 3 5 12 0 0 0,
            expires = mk_datetime 2024 3 6 12 0 0 0\<rparr>), (''555555'', twin_share)],
        session_share_code = Some ''000000'',
        session_encryption_key = Some (generate_encryption_key ''000000'' example_salt),
        current_download = None\<rparr>) ''000000'' = Some info \<and>
      salt info = example_salt \<and> created info = mk_datetime 2024 3 5 12 0 0 0 \<and>
      map name (files info) = map fst [(''new.txt'', [110])]) \<and>
   map_of [(''000000'',
           \<lparr>files = [\<lparr>name = ''new.txt'', data = [110], size_f = 1, encrypted = False\<rparr>],
            salt = example_salt, created = mk_datetime 2024 3 5 12 0 0 0,
            expires = mk_datetime 2024 3 6 12 0 0 0\<rparr>), (''555555'', twin_share)] ''555555''
     = map_of [(''000000'', live_share), (''555555'', twin_share)] ''555555'' \<and>
   create_share (draws_of ''000000'') example_salt example_env
       (mk_datetime 9999 12 31 12 0 0 0) (mk_datetime 9999 12 31 12 0 0 0) [(''new.txt'', [110])] False
       (empty_session\<lparr>session_files := [(''000000'', live_share), (''555555'', twin_share)]\<rparr>)
     = Inl OverflowError \<and>
   create_share (draws_of ''000000'') example_salt example_env
       (mk_datetime 9999 12 31 12 0 0 0) (mk_datetime 9999 12 31 12 0 0 0) [(''new.txt'', [110])] False
       empty_session
     = Inl OverflowError"
proof -
  have add: "datetime_add_24h (mk_datetime 2024 3 5 12 0 0 0) = Inr (mk_datetime 2024 3 6 12 0 0 0)"
    by (simp add: datetime_add_24h_def mk_datetime_def days_in_month_def)
  have run: "create_share (draws_of ''000000'') example_salt example_env
       (mk_datetime 2024 3 5 12 0 0 0) (mk_datetime 2024 3 5 12 0 0 0) [(''new.txt'', [110])] False
       (empty_session\<lparr>session_files := [(''000000'', live_share), (''555555'', twin_share)]\<rparr>)
     = Inr \<lparr>session_files = [(''000000'',
           \<lparr>files = [\<lparr>name = ''new.txt'', data = [110], size_f = 1, encrypted = False\<rparr>],
            salt = example_salt, created = mk_datetime 2024 3 5 12 0 0 0,
            expires = mk_datetime 2024 3 6 12 0 0 0\<rparr>), (''555555'', twin_share)],
        session_share_code = Some ''000000'',
        session_encryption_key = Some (generate_encryption_key ''000000'' example_salt),
        current_download = None\<rparr>"
    by (simp add: create_share_unencrypted [OF _ add] code_000000 empty_session_def)
  have ne: "[(''new.txt'', [110::byte])] \<noteq> []" by simp
  have over: "datetime_add_24h (mk_datetime 9999 12 31 12 0 0 0) = Inl OverflowError"
    by (simp add: datetime_add_24h_def mk_datetime_def days_in_month_def)
  have fail: "create_share (draws_of ''000000'') example_salt example_env
       (mk_datetime 9999 12 31 12 0 0 0) (mk_datetime 9999 12 31 12 0 0 0) [(''new.txt'', [110])] False
       (empty_session\<lparr>session_files := [(''000000'', live_share), (''555555'', twin_share)]\<rparr>)
     = Inl OverflowError"
    by (simp add: create_share_def store_files_unencrypted over Let_def)
  from create_share_overwrites
    [of "draws_of ''000000''" example_salt example_env "mk_datetime 2024 3 5 12 0 0 0"
        "mk_datetime 2024 3 5 12 0 0 0" "[(''new.txt'', [110])]" False
        "empty_session\<lparr>session_files := [(''000000'', live_share), (''555555'', twin_share)]\<rparr>"]
    run ne
  have part1: "(\<exists>info. map_of (session_files
       \<lparr>session_files = [(''000000'',
           \<lparr>files = [\<lparr>name = ''new.txt'', data = [110], size_f = 1, encrypted = False\<rparr>],
            salt = example_salt, created = mk_datetime 2024 3 5 12 0 0 0,
            expires = mk_datetime 2024 3 6 12 0 0 0\<rparr>), (''555555'', twin_share)],
        session_share_code = Some ''000000'',
        session_encryption_key = Some (generate_encryption_key ''000000'' example_salt),
        current_download = None\<rparr>) ''000000'' = Some info \<and>
      salt info = example_salt \<and> created info = mk_datetime 2024 3 5 12 0 0 0 \<and>
      map name (files info) = map fst [(''new.txt'', [110])])"
    by (simp add: code_000000 empty_session_def)
  from create_share_overwrites
    [of "draws_of ''000000''" example_salt example_env "mk_datetime 9999 12 31 12 0 0 0"
        "mk_datetime 9999 12 31 12 0 0 0" "[(''new.txt'', [110])]" False
        "empty_session\<lparr>session_files := [(''000000'', live_share), (''555555'', twin_share)]\<rparr>"
        OverflowError empty_session]
    fail
  have part2: "create_share (draws_of ''000000'') example_salt example_env
       (mk_datetime 9999 12 31 12 0 0 0) (mk_datetime 9999 12 31 12 0 0 0) [(''new.txt'', [110])] False
       empty_session = Inl OverflowError"
    by blast
  from part1 fail part2 show ?thesis by simp
qed

text \<open>
  C6 (as the spec states it) fails: the store holds the unexpired record \<open>live_share\<close>
  under \<open>000000\<close>, the six draws are 0, and the handler returns normally with the new
  record in the place of the old one.
\<close>

theorem create_share_duplicate_code:
  "map_of (session_files (empty_session\<lparr>session_files := [(''000000'', live_share)]\<rparr>)) ''000000''
     = Some live_share \<and>
   datetime_gt (expires live_share) (mk_datetime 2024 3 5 12 0 0 0) \<and>
   create_share (draws_of ''000000'') example_salt example_env
       (mk_datetime 2024 3 5 12 0 0 0) (mk_datetime 2024 3 5 12 0 0 0) [(''new.txt'', [110])] False
       (empty_session\<lparr>session_files := [(''000000'', live_share)]\<rparr>)
     = Inr \<lparr>session_files = [(''000000'',
           \<lparr>files = [\<lparr>name = ''new.txt'', data = [110], size_f = 1, encrypted = False\<rparr>],
            salt = example_salt, created = mk_datetime 2024 3 5 12 0 0 0,
            expires = mk_datetime 2024 3 6 12 0 0 0\<rparr>)],
        session_share_code = Some ''000000'',
        session_encryption_key = Some (generate_encryption_key ''000000'' example_salt),
        current_download = None\<rparr>"
proof -
  have add: "datetime_add_24h (mk_datetime 2024 3 5 12 0 0 0) = Inr (mk_datetime 2024 3 6 12 0 0 0)"
    by (simp add: datetime_add_24h_def mk_datetime_def days_in_month_def)
  have live: "datetime_gt (expires live_share) (mk_datetime 2024 3 5 12 0 0 0)"
    by (simp add: live_share_def datetime_gt_def datetime_fields_def mk_datetime_def)
  show ?thesis
    by (simp add: create_share_unencrypted [OF _ add] code_000000 empty_session_def live)
qed

text \<open>
  C9: the handler reads the clock once for \<open>created\<close> and once more for \<open>expires\<close>.
  With the readings 250 and 251 microseconds past 12:00:00 the stored record expires 24
  hours after the second reading, which is not \<open>created\<close> plus 24 hours.
\<close>

theorem create_share_expiry_from_second_reading:
  "create_share (draws_of ''123456'') example_salt example_env
       (mk_datetime 2024 3 5 12 0 0 250) (mk_datetime 2024 3 5 12 0 0 251) [(''a.txt'', [104, 105])] False
       empty_session
     = Inr \<lparr>session_files = [(''123456'',
           \<lparr>files = [\<lparr>name = ''a.txt'', data = [104, 105], size_f = 2, encrypted = False\<rparr>],
            salt = example_salt, created = mk_datetime 2024 3 5 12 0 0 250,
            expires = mk_datetime 2024 3 6 12 0 0 251\<rparr>)],
        session_share_code = Some ''123456'',
        session_encryption_key = Some (generate_encryption_key ''123456'' example_salt),
        current_download = None\<rparr> \<and>
   datetime_add_24h (mk_datetime 2024 3 5 12 0 0 250) = Inr (mk_datetime 2024 3 6 12 0 0 250) \<and>
   mk_datetime 2024 3 6 12 0 0 250 \<noteq> mk_datetime 2024 3 6 12 0 0 251"
proof -
  have add: "datetime_add_24h (mk_datetime 2024 3 5 12 0 0 251) = Inr (mk_datetime 2024 3 6 12 0 0 251)"
    by (simp add: datetime_add_24h_def mk_datetime_def days_in_month_def)
  have add1: "datetime_add_24h (mk_datetime 2024 3 5 12 0 0 250) = Inr (mk_datetime 2024 3 6 12 0 0 250)"
    by (simp add: datetime_add_24h_def mk_datetime_def days_in_month_def)
  have ne: "mk_datetime 2024 3 6 12 0 0 250 \<noteq> mk_datetime 2024 3 6 12 0 0 251"
    by (simp add: mk_datetime_def)
  show ?thesis
    by (simp add: create_share_unencrypted [OF _ add] code_123456 empty_session_def add1 ne)
qed


section \<open>Properties of downloads\<close>

lemma zip_write_unencrypted:
  "list_all (\<lambda>f. \<not> encrypted f) fs \<Longrightarrow> zip_write code info fs = Inr (map (\<lambda>f. (name f, data f)) fs)"
  by (induction fs) auto

lemma zip_write_errors:
  "zip_write code info fs = Inl e \<Longrightarrow>
     \<exists>f \<in> set fs. encrypted f \<and> decrypt_file (data f) (generate_encryption_key code (salt info)) = Inl e"
  by (induction fs) (auto split: sum.splits if_splits)

lemma zip_write_names:
  "zip_write code info fs = Inr entries \<Longrightarrow> map fst entries = map name fs"
  by (induction fs arbitrary: entries) (auto split: sum.splits if_splits)

text \<open>
  C7 (as the code has it): the ZIP builders compare no names. Whatever the names are,
  a build ends in an error only when the decryption of an encrypted entry raises, and
  that error is the one of the decryption; a finished archive holds one entry for every
  file written, under the file's name and in the files' order, equal names included.
\<close>

theorem zip_builders_keep_equal_names:
  "(download_all_zip code info = Some (Inl e) \<longrightarrow>
      (\<exists>f \<in> set (files info). encrypted f \<and>
         decrypt_file (data f) (generate_encryption_key code (salt info)) = Inl e)) \<and>
   (download_all_zip code info = Some (Inr entries) \<longrightarrow> map fst entries = map name (files info)) \<and>
   (download_selected_zip selected code info = Some (Inl e) \<longrightarrow>
      (\<exists>f \<in> set (files info). encrypted f \<and>
         decrypt_file (data f) (generate_encryption_key code (salt info)) = Inl e)) \<and>
   (download_selected_zip selected code info = Some (Inr entries) \<longrightarrow>
      map fst entries = filter (\<lambda>n. n \<in> set selected) (map name (files info))) \<and>
   (length (files info) > 1 \<and> list_all (\<lambda>f. \<not> encrypted f) (files info) \<longrightarrow>
      download_all_zip code info = Some (Inr (map (\<lambda>f. (name f, data f)) (files info))))"
proof (intro conjI impI)
  assume "download_all_zip code info = Some (Inl e)"
  then have "zip_write code info (files info) = Inl e"
    by (simp add: download_all_zip_def split: if_splits)
  then show "\<exists>f \<in> set (files info). encrypted f \<and>
         decrypt_file (data f) (generate_encryption_key code (salt info)) = Inl e"
    by (rule zip_write_errors)
next
  assume "download_all_zip code info = Some (Inr entries)"
  then have "zip_write code info (files info) = Inr entries"
    by (simp add: download_all_zip_def split: if_splits)
  then show "map fst entries = map name (files info)" by (rule zip_write_names)
next
  assume "download_selected_zip selected code info = Some (Inl e)"
  then have "zip_write code info (filter (\<lambda>f. name f \<in> set selected) (files info)) = Inl e"
    by (simp add: download_selected_zip_def split: if_splits)
  from zip_write_errors [OF this]
  show "\<exists>f \<in> set (files info). encrypted f \<and>
         decrypt_file (data f) (generate_encryption_key code (salt info)) = Inl e"
    by auto
next
  assume "download_selected_zip selected code info = Some (Inr entries)"
  then have "zip_write code info (filter (\<lambda>f. name f \<in> set selected) (files info)) = Inr entries"
    by (simp add: download_selected_zip_def split: if_splits)
  from zip_write_names [OF this]
  show "map fst entries = filter (\<lambda>n. n \<in> set selected) (map name (files info))"
    by (simp add: filter_map comp_def)
next
  assume "length (files info) > 1 \<and> list_all (\<lambda>f. \<not> encrypted f) (files info)"
  then show "download_all_zip code info = Some (Inr (map (\<lambda>f. (name f, data f)) (files info)))"
    by (simp add: download_all_zip_def zip_write_unencrypted)
qed

theorem zip_builders_keep_equal_names_witness:
  "download_selected_zip [''b.txt''] ''123456''
     (live_share\<lparr>files := [\<lparr>name = ''a.txt'', data = [97], size_f = 1, encrypted = False\<rparr>,
                          \<lparr>name = ''b.txt'', data = [98], size_f = 1, encrypted = False\<rparr>,
                          \<lparr>name = ''b.txt'', data = [99], size_f = 1, encrypted = False\<rparr>]\<rparr>)
     = Some (Inr [(''b.txt'', [98]), (''b.txt'', [99])]) \<and>
   map fst [(''b.txt'', [98::byte]), (''b.txt'', [99])] =
     filter (\<lambda>n. n \<in> set [''b.txt''])
       (map name [\<lparr>name = ''a.txt'', data = [97], size_f = 1, encrypted = False\<rparr>,
                  \<lparr>name = ''b.txt'', data = [98], size_f = 1, encrypted = False\<rparr>,
                  \<lparr>name = ''b.txt'', data = [99], size_f = 1, encrypted = False\<rparr>]) \<and>
   download_all_zip ''123456''
     (live_share\<lparr>files := [\<lparr>name = ''a.txt'', data = [97], size_f = 1, encrypted = False\<rparr>,
                          \<lparr>name = ''b.txt'', data = [98], size_f = 1, encrypted = False\<rparr>,
                          \<lparr>name = ''b.txt'', data = [99], size_f = 1, encrypted = False\<rparr>]\<rparr>)
     = Some (Inr [(''a.txt'', [97]), (''b.txt'', [98]), (''b.txt'', [99])])"
proof -
  let ?info = "live_share\<lparr>files := [\<lparr>name = ''a.txt'', data = [97], size_f = 1, encrypted = False\<rparr>,
                          \<lparr>name = ''b.txt'', data = [98], size_f = 1, encrypted = False\<rparr>,
                          \<lparr>name = ''b.txt'', data = [99], size_f = 1, encrypted = False\<rparr>]\<rparr>"
  have sel: "download_selected_zip [''b.txt''] ''123456'' ?info
      = Some (Inr [(''b.txt'', [98]), (''b.txt'', [99])])"
    by (simp add: download_selected_zip_def)
  have pre: "length (files ?info) > 1 \<and> list_all (\<lambda>f. \<not> encrypted f) (files ?info)"
    by simp
  from zip_builders_keep_equal_names
    [of "''123456''" ?info ValueError "[(''b.txt'', [98]), (''b.txt'', [99])]" "[''b.txt'']"]
    sel pre
  show ?thesis by simp
qed

text \<open>
  C7 (as the spec states it) fails: the record with two files named \<open>x.txt\<close> is
  archived, with both entries.
\<close>

theorem zip_duplicate_names_archived:
  "download_all_zip ''123456'' twin_share = Some (Inr [(''x.txt'', [49]), (''x.txt'', [50])])"
  by (simp add: download_all_zip_def twin_share_def)

text \<open>
  C10: with the encryption box unticked the handler stores every uploaded file under its
  name with exactly its bytes, flagged unencrypted, and each download path (the per-file
  button and the ZIP of all files) serves exactly the uploaded bytes.
\<close>

theorem unencrypted_files_unchanged:
  assumes "create_share r tb env now1 now2 ups False st = Inr st'" and "ups \<noteq> []"
  shows "\<exists>info. map_of (session_files st') (generate_share_code r) = Some info \<and>
           files info = map (\<lambda>(n, v). \<lparr>name = n, data = v, size_f = length v, encrypted = False\<rparr>) ups \<and>
           map (download_file (generate_share_code r) info) (files info) =
             map (\<lambda>(n, v). DownloadButton n v) ups \<and>
           zip_write (generate_share_code r) info (files info) = Inr ups"
proof -
  from create_share_stored [OF assms] obtain file_data in_24h where
    sf: "store_files False (generate_encryption_key (generate_share_code r) tb) env 0 ups = Inr file_data"
    and st': "st' = st\<lparr>session_files :=
                      AList.update (generate_share_code r)
                        \<lparr>files = file_data, salt = tb, created = now1, expires = in_24h\<rparr>
                        (session_files st),
                    session_share_code := Some (generate_share_code r),
                    session_encryption_key := Some (generate_encryption_key (generate_share_code r) tb)\<rparr>"
    by blast
  let ?fs = "map (\<lambda>(n, v). \<lparr>name = n, data = v, size_f = length v, encrypted = False\<rparr>) ups"
  let ?info = "\<lparr>files = ?fs, salt = tb, created = now1, expires = in_24h\<rparr>"
  from sf have fd: "file_data = ?fs" by (simp add: store_files_unencrypted)
  have lookup: "map_of (session_files st') (generate_share_code r) = Some ?info"
    unfolding st' fd by (simp add: update_conv')
  have un: "list_all (\<lambda>f. \<not> encrypted f) ?fs" by (simp add: list_all_iff split_def)
  have dl: "map (download_file (generate_share_code r) ?info) ?fs = map (\<lambda>(n, v). DownloadButton n v) ups"
    by (simp add: download_file_def split_def)
  have zw: "zip_write (generate_share_code r) ?info ?fs = Inr ups"
    unfolding zip_write_unencrypted [OF un] by (simp add: split_def comp_def)
  from lookup dl zw show ?thesis by auto
qed


theorem unencrypted_files_unchanged_witness:
  "\<exists>info. map_of [(''123456'',
           \<lparr>files = [\<lparr>name = ''a.txt'', data = [104, 105], size_f = 2, encrypted = False\<rparr>],
            salt = example_salt, created = mk_datetime 2024 3 5 12 0 0 0,
            expires = mk_datetime 2024 3 6 12 0 0 0\<rparr>)] ''123456'' = Some info \<and>
      files info = [\<lparr>name = ''a.txt'', data = [104, 105], size_f = 2, encrypted = False\<rparr>] \<and>
      map (download_file ''123456'' info) (files info) = [DownloadButton ''a.txt'' [104, 105]] \<and>
      zip_write ''123456'' info (files info) = Inr [(''a.txt'', [104, 105])]"
proof -
  have add: "datetime_add_24h (mk_datetime 2024 3 5 12 0 0 0) = Inr (mk_datetime 2024 3 6 12 0 0 0)"
    by (simp add: datetime_add_24h_def mk_datetime_def days_in_month_def)
  have run: "create_share (draws_of ''123456'') example_salt example_env
       (mk_datetime 2024 3 5 12 0 0 0) (mk_datetime 2024 3 5 12 0 0 0) [(''a.txt'', [104, 105])] False
       empty_session
     = Inr \<lparr>session_files = [(''123456'',
           \<lparr>files = [\<lparr>name = ''a.txt'', data = [104, 105], size_f = 2, encrypted = False\<rparr>],
            salt = example_salt, created = mk_datetime 2024 3 5 12 0 0 0,
            expires = mk_datetime 2024 3 6 12 0 0 0\<rparr>)],
        session_share_code = Some ''123456'',
        session_encryption_key = Some (generate_encryption_key ''123456'' example_salt),
        current_download = None\<rparr>"
    by (simp add: create_share_unencrypted [OF _ add] code_123456 empty_session_def)
  have ne: "[(''a.txt'', [104, 105::byte])] \<noteq> []" by simp
  from unencrypted_files_unchanged [OF run ne] show ?thesis
    by (simp add: code_123456)
qed

section \<open>Properties of key derivation\<close>

text \<open>
  C8: \<open>generate_encryption_key\<close> reads nothing but its two arguments (no clock, no random
  source), so two calls with the same password and salt return the same key. The program
  relies on it: the key kept in the session when a share is created (line 314) is the
  key derived again for a download (line 426) from the code and the stored salt.
\<close>

theorem generate_encryption_key_deterministic:
  "(k1 = generate_encryption_key password s \<and> k2 = generate_encryption_key password s
      \<longrightarrow> k1 = k2) \<and>
   (create_share r s env now1 now2 ups enc st = Inr st' \<and> ups \<noteq> [] \<and>
    map_of (session_files st') (generate_share_code r) = Some info
      \<longrightarrow> session_encryption_key st' =
            Some (generate_encryption_key (generate_share_code r) (salt info)))"
proof (intro conjI impI)
  assume "k1 = generate_encryption_key password s \<and> k2 = generate_encryption_key password s"
  then show "k1 = k2" by simp
next
  assume a: "create_share r s env now1 now2 ups enc st = Inr st' \<and> ups \<noteq> [] \<and>
    map_of (session_files st') (generate_share_code r) = Some info"
  then have run: "create_share r s env now1 now2 ups enc st = Inr st'" and ne: "ups \<noteq> []"
    and look: "map_of (session_files st') (generate_share_code r) = Some info"
    by simp_all
  from create_share_stored [OF run ne] obtain file_data in_24h where
    st': "st' = st\<lparr>session_files :=
                      AList.update (generate_share_code r)
                        \<lparr>files = file_data, salt = s, created = now1, expires = in_24h\<rparr>
                        (session_files st),
                    session_share_code := Some (generate_share_code r),
                    session_encryption_key := Some (generate_encryption_key (generate_share_code r) s)\<rparr>"
    by blast
  from look have "salt info = s" unfolding st' by (auto simp: update_conv')
  then show "session_encryption_key st' =
            Some (generate_encryption_key (generate_share_code r) (salt info))"
    unfolding st' by simp
qed

theorem generate_encryption_key_deterministic_witness:
  "generate_encryption_key ''407193'' example_salt = generate_encryption_key ''407193'' example_salt \<and>
   session_encryption_key
     \<lparr>session_files = [(''407193'',
           \<lparr>files = [\<lparr>name = ''a.txt'', data = [104, 105], size_f = 2, encrypted = False\<rparr>],
            salt = example_salt, created = mk_datetime 2024 3 5 12 0 0 0,
            expires = mk_datetime 2024 3 6 12 0 0 0\<rparr>)],
        session_share_code = Some ''407193'',
        session_encryption_key = Some (generate_encryption_key ''407193'' example_salt),
        current_download = None\<rparr>
     = Some (generate_encryption_key ''407193'' (salt
           \<lparr>files = [\<lparr>name = ''a.txt'', data = [104, 105], size_f = 2, encrypted = False\<rparr>],
            salt = example_salt, created = mk_datetime 2024 3 5 12 0 0 0,
            expires = mk_datetime 2024 3 6 12 0 0 0\<rparr>))"
proof -
  let ?info = "\<lparr>files = [\<lparr>name = ''a.txt'', data = [104, 105], size_f = 2, encrypted = False\<rparr>],
            salt = example_salt, created = mk_datetime 2024 3 5 12 0 0 0,
            expires = mk_datetime 2024 3 6 12 0 0 0\<rparr>"
  let ?st' = "\<lparr>session_files = [(''407193'', ?info)],
        session_share_code = Some ''407193'',
        session_encryption_key = Some (generate_encryption_key ''407193'' example_salt),
        current_download = None\<rparr>"
  have code: "generate_share_code (draws_of ''407193'') = ''407193''"
    by (simp add: generate_share_code_unfold draws_of_def digit_val_def digit_char_def)
  have add: "datetime_add_24h (mk_datetime 2024 3 5 12 0 0 0) = Inr (mk_datetime 2024 3 6 12 0 0 0)"
    by (simp add: datetime_add_24h_def mk_datetime_def days_in_month_def)
  have run: "create_share (draws_of ''407193'') example_salt example_env
       (mk_datetime 2024 3 5 12 0 0 0) (mk_datetime 2024 3 5 12 0 0 0) [(''a.txt'', [104, 105])] False
       empty_session = Inr ?st'"
    by (simp add: create_share_unencrypted [OF _ add] code empty_session_def)
  have look: "map_of (session_files ?st') (generate_share_code (draws_of ''407193'')) = Some ?info"
    by (simp add: code)
  from generate_encryption_key_deterministic
    [of "generate_encryption_key ''407193'' example_salt" "''407193''" example_salt
        "generate_encryption_key ''407193'' example_salt" "draws_of ''407193''" example_env
        "mk_datetime 2024 3 5 12 0 0 0" "mk_datetime 2024 3 5 12 0 0 0"
        "[(''a.txt'', [104, 105])]" False empty_session ?st' ?info]
    run look
  show ?thesis by (simp add: code)
qed

section \<open>Properties of Base64\<close>

lemma index_of_nth:
  "distinct xs \<Longrightarrow> i < length xs \<Longrightarrow> index_of (xs ! i) xs = Some i"
proof (induction xs arbitrary: i)
  case Nil
  then show ?case by simp
next
  case (Cons x xs)
  show ?case
  proof (cases i)
    case 0
    then show ?thesis by simp
  next
    case (Suc j)
    with Cons.prems have "xs ! j \<noteq> x" by auto
    with Suc Cons show ?thesis by simp
  qed
qed

lemma b64_alphabet_length: "length b64_alphabet = 64"
  by (simp add: b64_alphabet_def)

lemma b64_alphabet_distinct: "distinct b64_alphabet"
  by (simp add: b64_alphabet_def)

lemma b64_alphabet_no_pad: "61 \<notin> set b64_alphabet"
  by (simp add: b64_alphabet_def)

lemma table_a2b_base64_nth: "i < 64 \<Longrightarrow> table_a2b_base64 (b64_alphabet ! i) = Some i"
  unfolding table_a2b_base64_def
  by (rule index_of_nth) (simp_all add: b64_alphabet_distinct b64_alphabet_length)

lemma b64_alphabet_nth_no_pad: "i < 64 \<Longrightarrow> b64_alphabet ! i \<noteq> 61"
  by (metis b64_alphabet_length b64_alphabet_no_pad nth_mem)

lemma a2b_step:
  assumes "i < 64"
  shows "a2b_base64_loop (b64_alphabet ! i # rest) q l p out =
     (if q = 0 then a2b_base64_loop rest 1 i 0 out
      else if q = 1 then a2b_base64_loop rest 2 (i mod 16) 0 (out @ [of_nat (l * 4 + i div 16)])
      else if q = 2 then a2b_base64_loop rest 3 (i mod 4) 0 (out @ [of_nat (l * 16 + i div 4)])
      else a2b_base64_loop rest 0 0 0 (out @ [of_nat (l * 64 + i)]))"
  using assms by (simp add: table_a2b_base64_nth b64_alphabet_nth_no_pad)

lemma a2b_pad:
  "a2b_base64_loop (61 # rest) q l p out =
     (if q \<ge> 2 \<and> q + (p + 1) \<ge> 4 then Inr out
      else a2b_base64_loop rest q l (if q \<ge> 2 then p + 1 else p) out)"
  by simp

lemma unat_byte_lt: "unat (a :: byte) < 256"
  using unsigned_less [of a, where ?'a = nat] by simp

lemma b64_recombine1: "y < 256 \<Longrightarrow> x div 4 * 4 + (x mod 4 * 16 + y div 16) div 16 = (x::nat)"
  by simp

lemma b64_recombine2:
  assumes "y < 256" and "z < 256"
  shows "(x mod 4 * 16 + y div 16) mod 16 * 16 + (y mod 16 * 4 + z div 64) div 4 = (y::nat)"
proof -
  from assms(1) have "y div 16 < 16" by simp
  then have "(x mod 4 * 16 + y div 16) mod 16 = y div 16" by simp
  moreover from assms(2) have "z div 64 < 4" by simp
  then have "(y mod 16 * 4 + z div 64) div 4 = y mod 16" by simp
  ultimately show ?thesis by simp
qed

lemma b64_recombine3:
  assumes "z < 256"
  shows "(y mod 16 * 4 + z div 64) mod 4 * 64 + z mod 64 = (z::nat)"
proof -
  from assms have "z div 64 < 4" by simp
  then have "(y mod 16 * 4 + z div 64) mod 4 = z div 64" by simp
  then show ?thesis by simp
qed


lemma b64_index_bounds:
  "unat (a::byte) div 4 < 64" "unat (a::byte) mod 4 * 16 + unat (b::byte) div 16 < 64"
  "unat (b::byte) mod 16 * 4 + unat (c::byte) div 64 < 64" "unat (c::byte) mod 64 < 64"
  "unat (a::byte) mod 4 * 16 < 64" "unat (b::byte) mod 16 * 4 < 64"
  using unat_byte_lt [of a] unat_byte_lt [of b] unat_byte_lt [of c] by simp_all

lemma a2b_group3:
  "a2b_base64_loop
     ([b64_alphabet ! (unat a div 4), b64_alphabet ! (unat a mod 4 * 16 + unat b div 16),
       b64_alphabet ! (unat b mod 16 * 4 + unat c div 64), b64_alphabet ! (unat c mod 64)] @ rest)
     0 0 0 out
   = a2b_base64_loop rest 0 0 0 (out @ [a, b, c])"
  using unat_byte_lt [of a] unat_byte_lt [of b] unat_byte_lt [of c]
  by (simp add: a2b_step b64_index_bounds b64_recombine1 b64_recombine2 b64_recombine3
        del: a2b_base64_loop.simps)

lemma a2b_group2:
  "a2b_base64_loop
     [b64_alphabet ! (unat a div 4), b64_alphabet ! (unat a mod 4 * 16 + unat b div 16),
      b64_alphabet ! (unat b mod 16 * 4), 61] 0 0 0 out
   = Inr (out @ [a, b])"
proof -
  have "(unat a mod 4 * 16 + unat b div 16) mod 16 * 16 + unat b mod 16 * 4 div 4 = unat b"
    using b64_recombine2 [of "unat b" 0 "unat a"] unat_byte_lt [of b] by simp
  then show ?thesis
    using unat_byte_lt [of a] unat_byte_lt [of b]
    by (simp add: a2b_step a2b_pad b64_index_bounds b64_recombine1 del: a2b_base64_loop.simps(2))
qed

lemma a2b_group1:
  "a2b_base64_loop [b64_alphabet ! (unat a div 4), b64_alphabet ! (unat a mod 4 * 16), 61, 61] 0 0 0 out
   = Inr (out @ [a])"
proof -
  have "unat a div 4 * 4 + unat a mod 4 * 16 div 16 = unat a"
    using b64_recombine1 [of 0 "unat a"] by simp
  then show ?thesis
    by (simp add: a2b_step a2b_pad b64_index_bounds del: a2b_base64_loop.simps(2))
qed

lemma a2b_base64_loop_encode_aux:
  "al = b64_alphabet \<Longrightarrow> a2b_base64_loop (b64encode_with al bs) 0 0 0 out = Inr (out @ bs)"
proof (induction al bs arbitrary: out rule: b64encode_with.induct)
  case (1 al a b c rest)
  from "1.IH" [OF "1.prems", of "out @ [a, b, c]"] "1.prems"
  show ?case
    using a2b_group3 [of a b c "b64encode_with b64_alphabet rest" out]
    by (simp del: a2b_base64_loop.simps(2))
next
  case (2 al a b)
  then show ?case using a2b_group2 [of a b out] by (simp del: a2b_base64_loop.simps(2))
next
  case (3 al a)
  then show ?case using a2b_group1 [of a out] by (simp del: a2b_base64_loop.simps(2))
next
  case (4 al)
  show ?case by simp
qed

lemma a2b_base64_loop_encode:
  "a2b_base64_loop (b64encode_with b64_alphabet bs) 0 0 0 out = Inr (out @ bs)"
  by (rule a2b_base64_loop_encode_aux) simp

lemma b64decode_b64encode: "b64decode (b64encode bs) = Inr bs"
  by (simp add: b64decode_def b64encode_def a2b_base64_loop_encode)

lemma urlsafe_translate_alphabet: "map urlsafe_translate urlsafe_alphabet = b64_alphabet"
  by (simp add: urlsafe_alphabet_def b64_alphabet_def urlsafe_translate_def)

lemma urlsafe_alphabet_length: "length urlsafe_alphabet = 64"
  by (simp add: urlsafe_alphabet_def)

lemma urlsafe_translate_nth: "i < 64 \<Longrightarrow> urlsafe_translate (urlsafe_alphabet ! i) = b64_alphabet ! i"
  using nth_map [of i urlsafe_alphabet urlsafe_translate]
  by (simp add: urlsafe_translate_alphabet urlsafe_alphabet_length)

lemma urlsafe_translate_pad: "urlsafe_translate 61 = 61"
  by (simp add: urlsafe_translate_def)

lemma urlsafe_translate_encode_aux:
  "al = urlsafe_alphabet \<Longrightarrow>
     map urlsafe_translate (b64encode_with al bs) = b64encode_with b64_alphabet bs"
  by (induction al bs rule: b64encode_with.induct)
     (simp_all add: urlsafe_translate_nth urlsafe_translate_pad b64_index_bounds)

lemma urlsafe_translate_encode:
  "map urlsafe_translate (b64encode_with urlsafe_alphabet bs) = b64encode_with b64_alphabet bs"
  by (rule urlsafe_translate_encode_aux) simp

lemma urlsafe_b64decode_urlsafe_b64encode: "urlsafe_b64decode (urlsafe_b64encode bs) = Inr bs"
  by (simp add: urlsafe_b64decode_def urlsafe_b64encode_def urlsafe_translate_encode
        b64decode_def a2b_base64_loop_encode)

section \<open>Properties of persistence\<close>

lemma digit_val_digit_char: "k < 10 \<Longrightarrow> digit_val (digit_char k) = k"
proof -
  assume "k < 10"
  then have "k \<in> {0, 1, 2, 3, 4, 5, 6, 7, 8, 9}" by auto
  then show ?thesis by (auto simp: digit_val_def digit_char_def)
qed

lemma str_nat_is_digit: "list_all is_digit (str_nat n)"
proof (induction n rule: str_nat.induct)
  case (1 n)
  show ?case
  proof (cases "n < 10")
    case True
    then show ?thesis by (simp add: digit_char_is_digit)
  next
    case False
    with 1 have "list_all is_digit (str_nat (n div 10))" by simp
    moreover have "is_digit (digit_char (n mod 10))" by (simp add: digit_char_is_digit)
    ultimately show ?thesis using False by (subst str_nat.simps) simp
  qed
qed

lemma parse_str_nat: "foldl (\<lambda>n c. 10 * n + digit_val c) 0 (str_nat n) = n"
proof (induction n rule: str_nat.induct)
  case (1 n)
  show ?case
  proof (cases "n < 10")
    case True
    then show ?thesis by (simp add: digit_val_digit_char)
  next
    case False
    with 1 have "foldl (\<lambda>n c. 10 * n + digit_val c) 0 (str_nat (n div 10)) = n div 10" by simp
    then show ?thesis using False
      by (subst str_nat.simps) (simp add: digit_val_digit_char)
  qed
qed

lemma str_nat_length: "0 < k \<Longrightarrow> n < 10 ^ k \<Longrightarrow> length (str_nat n) \<le> k"
proof (induction n arbitrary: k rule: str_nat.induct)
  case (1 n)
  show ?case
  proof (cases "n < 10")
    case True
    with "1.prems" show ?thesis by simp
  next
    case False
    from "1.prems" obtain j where k: "k = Suc j" by (cases k) auto
    have j: "0 < j"
    proof (rule ccontr)
      assume "\<not> 0 < j"
      with k "1.prems" False show False by simp
    qed
    from "1.prems" k have "n div 10 < 10 ^ j" by (simp add: less_mult_imp_div_less)
    with "1.IH" [OF False j] have "length (str_nat (n div 10)) \<le> j" by simp
    then show ?thesis using False k by (subst str_nat.simps) simp
  qed
qed

lemma zero_pad_length: "0 < w \<Longrightarrow> n < 10 ^ w \<Longrightarrow> length (zero_pad w n) = w"
  using str_nat_length [of w n] by (simp add: zero_pad_def del: str_nat.simps)

lemma parse_zeros: "foldl (\<lambda>n c. 10 * n + digit_val c) 0 (replicate m CHR ''0'') = 0"
  by (induction m) (simp_all add: digit_val_def)

lemma parse_digits_zero_pad: "parse_digits (zero_pad w n) = Some n"
proof -
  have "is_digit CHR ''0''" by (simp add: is_digit_def)
  then have "list_all is_digit (zero_pad w n)"
    using str_nat_is_digit [of n] by (auto simp: zero_pad_def list_all_iff simp del: str_nat.simps)
  then show ?thesis
    by (simp add: parse_digits_def zero_pad_def parse_zeros parse_str_nat del: str_nat.simps)
qed

lemma zero_pad_2:
  assumes "n < 100"
  obtains a b where "zero_pad 2 n = [a, b]" and "parse_digits [a, b] = Some n"
proof -
  from assms have "length (zero_pad 2 n) = 2" by (simp add: zero_pad_length)
  then obtain a b where "zero_pad 2 n = [a, b]"
    by (auto simp: eval_nat_numeral length_Suc_conv)
  with parse_digits_zero_pad [of 2 n] that show ?thesis by simp
qed

lemma zero_pad_4:
  assumes "n < 10000"
  obtains a b c d where "zero_pad 4 n = [a, b, c, d]" and "parse_digits [a, b, c, d] = Some n"
proof -
  from assms have "length (zero_pad 4 n) = 4" by (simp add: zero_pad_length)
  then obtain a b c d where "zero_pad 4 n = [a, b, c, d]"
    by (auto simp: eval_nat_numeral length_Suc_conv)
  with parse_digits_zero_pad [of 4 n] that show ?thesis by simp
qed

lemma zero_pad_6:
  assumes "n < 1000000"
  obtains a b c d e f where "zero_pad 6 n = [a, b, c, d, e, f]"
    and "parse_digits [a, b, c, d, e, f] = Some n"
proof -
  from assms have "length (zero_pad 6 n) = 6" by (simp add: zero_pad_length)
  then obtain a b c d e f where "zero_pad 6 n = [a, b, c, d, e, f]"
    by (auto simp: eval_nat_numeral length_Suc_conv)
  with parse_digits_zero_pad [of 6 n] that show ?thesis by simp
qed

lemma datetime_eq_mk:
  "mk_datetime (year d) (month d) (day d) (hour d) (minute d) (second d) (microsecond d) = (d::datetime)"
  by (simp add: mk_datetime_def)

lemma days_in_month_le: "days_in_month y m \<le> 31"
  by (simp add: days_in_month_def)

lemma fromisoformat_isoformat:
  assumes "valid_datetime d"
  shows "fromisoformat (isoformat d) = Inr d"
proof -
  from assms have b: "year d < 10000" "month d < 100" "day d < 100" "hour d < 100"
    "minute d < 100" "second d < 100" "microsecond d < 1000000"
    using days_in_month_le [of "year d" "month d"] by (simp_all add: valid_datetime_def)
  obtain y1 y2 y3 y4 where y: "zero_pad 4 (year d) = [y1, y2, y3, y4]"
    "parse_digits [y1, y2, y3, y4] = Some (year d)" using zero_pad_4 [OF b(1)] by blast
  obtain m1 m2 where m: "zero_pad 2 (month d) = [m1, m2]" "parse_digits [m1, m2] = Some (month d)"
    using zero_pad_2 [OF b(2)] by blast
  obtain d1 d2 where dd: "zero_pad 2 (day d) = [d1, d2]" "parse_digits [d1, d2] = Some (day d)"
    using zero_pad_2 [OF b(3)] by blast
  obtain h1 h2 where h: "zero_pad 2 (hour d) = [h1, h2]" "parse_digits [h1, h2] = Some (hour d)"
    using zero_pad_2 [OF b(4)] by blast
  obtain i1 i2 where i: "zero_pad 2 (minute d) = [i1, i2]" "parse_digits [i1, i2] = Some (minute d)"
    using zero_pad_2 [OF b(5)] by blast
  obtain s1 s2 where s: "zero_pad 2 (second d) = [s1, s2]" "parse_digits [s1, s2] = Some (second d)"
    using zero_pad_2 [OF b(6)] by blast
  obtain u1 u2 u3 u4 u5 u6 where u: "zero_pad 6 (microsecond d) = [u1, u2, u3, u4, u5, u6]"
    "parse_digits [u1, u2, u3, u4, u5, u6] = Some (microsecond d)" using zero_pad_6 [OF b(7)] by blast
  have p0: "parse_digits [] = Some 0" by (simp add: parse_digits_def)
  show ?thesis
  proof (cases "microsecond d = 0")
    case True
    then have "isoformat d = [y1, y2, y3, y4, CHR ''-'', m1, m2, CHR ''-'', d1, d2, CHR ''T'',
        h1, h2, CHR '':'', i1, i2, CHR '':'', s1, s2]"
      by (simp add: isoformat_def y m dd h i s)
    then show ?thesis
      using assms True datetime_eq_mk [of d]
      by (simp add: fromisoformat_def y m dd h i s p0)
  next
    case False
    then have "isoformat d = [y1, y2, y3, y4, CHR ''-'', m1, m2, CHR ''-'', d1, d2, CHR ''T'',
        h1, h2, CHR '':'', i1, i2, CHR '':'', s1, s2, CHR ''.'', u1, u2, u3, u4, u5, u6]"
      by (simp add: isoformat_def y m dd h i s u)
    then show ?thesis
      using assms datetime_eq_mk [of d]
      by (simp add: fromisoformat_def y m dd h i s u)
  qed
qed

lemma of_char_char_of_byte: "(of_char (char_of (unat b)) :: byte) = b"
proof -
  have "(of_char (char_of (unat b)) :: byte) = of_nat (of_char (char_of (unat b)))"
    by (simp only: of_nat_of_char)
  also have "\<dots> = of_nat (unat b)" using unat_byte_lt [of b] by simp
  finally show ?thesis by simp
qed

lemma of_char_char_of_nat: "(of_char (char_of (unat (b::byte))) :: nat) = unat b"
  using unat_byte_lt [of b] by simp

lemma b64encode_with_set:
  "length al = 64 \<Longrightarrow> set (b64encode_with al bs) \<subseteq> set al \<union> {61}"
  by (induction al bs rule: b64encode_with.induct) (simp_all add: b64_index_bounds)

lemma b64_alphabet_ascii: "\<forall>b \<in> set b64_alphabet. unat b < 128"
  by (simp add: b64_alphabet_def)

lemma b64encode_ascii: "b \<in> set (b64encode bs) \<Longrightarrow> unat b < 128"
  using b64encode_with_set [OF b64_alphabet_length, of bs] b64_alphabet_ascii
  by (auto simp: b64encode_def)

lemma b64decode_str_b64encode: "b64decode_str (bytes_decode (b64encode bs)) = Inr bs"
proof -
  have "list_all (\<lambda>c. (of_char c :: nat) < 128) (bytes_decode (b64encode bs))"
    by (simp add: bytes_decode_def list_all_iff of_char_char_of_nat b64encode_ascii
          del: of_char_of)
  moreover have "map of_char (bytes_decode (b64encode bs)) = b64encode bs"
    by (simp add: bytes_decode_def comp_def of_char_char_of_byte del: of_char_of)
  ultimately show ?thesis by (simp add: b64decode_str_def b64decode_b64encode)
qed

lemma load_files_file_to_json: "load_files (map file_to_json fs) = Inr fs"
  by (induction fs) (simp_all add: file_to_json_def b64decode_str_b64encode)

lemma update_fresh: "k \<notin> fst ` set al \<Longrightarrow> AList.update k v al = al @ [(k, v)]"
  by (induction al) auto

lemma foldl_update_distinct:
  "distinct (map fst acc @ map fst fs) \<Longrightarrow>
     foldl (\<lambda>d (code, info). AList.update code (f info) d) acc fs =
       acc @ map (\<lambda>(code, info). (code, f info)) fs"
proof (induction fs arbitrary: acc)
  case Nil
  then show ?case by simp
next
  case (Cons p fs)
  obtain code info where p: "p = (code, info)" by (cases p)
  from Cons.prems p have fresh: "code \<notin> fst ` set acc" by auto
  from Cons.prems p have "distinct (map fst (acc @ [(code, f info)]) @ map fst fs)" by auto
  from Cons.IH [OF this] show ?case by (simp add: p update_fresh [OF fresh])
qed

lemma save_shared_data_distinct:
  "distinct (map fst fs) \<Longrightarrow>
     save_shared_data fs =
       map (\<lambda>(code, info). (code,
          \<lparr>json_salt = bytes_decode (b64encode (salt info)),
            json_created = isoformat (created info),
            json_expires = isoformat (expires info),
            json_files = map file_to_json (files info)\<rparr>)) fs"
  unfolding save_shared_data_def
  using foldl_update_distinct [of "[]" fs] by simp

lemma load_items_saved:
  assumes "\<forall>(code, info) \<in> set fs. valid_datetime (created info) \<and> valid_datetime (expires info)"
  shows "load_items (map (\<lambda>(code, info). (code,
          \<lparr>json_salt = bytes_decode (b64encode (salt info)),
            json_created = isoformat (created info),
            json_expires = isoformat (expires info),
            json_files = map file_to_json (files info)\<rparr>)) fs) = Inr fs"
  using assms
  by (induction fs)
     (auto simp: load_info_def b64decode_str_b64encode fromisoformat_isoformat load_files_file_to_json)

text \<open>
  C5: for a store with valid timestamps (the store is a dictionary: its codes are
  distinct), loading the document that \<open>save_shared_data\<close> writes puts exactly the saved
  store into the session: every record comes back with the same salt, the same
  timestamps to the microsecond, and the same files with the same names, bytes, sizes and
  encrypted flags.
\<close>

theorem load_after_save:
  assumes "distinct (map fst fs)"
    and "\<forall>(code, info) \<in> set fs. valid_datetime (created info) \<and> valid_datetime (expires info)"
  shows "load_shared_data (Some (save_shared_data fs)) st = Inr (st\<lparr>session_files := fs\<rparr>)"
  using assms by (simp add: load_shared_data_def save_shared_data_distinct load_items_saved)

theorem load_after_save_witness:
  "load_shared_data
     (Some (save_shared_data [(''123456'', all_bytes_share), (''000000'', live_share)]))
     empty_session
   = Inr (empty_session\<lparr>session_files := [(''123456'', all_bytes_share), (''000000'', live_share)]\<rparr>)"
proof -
  have h1: "distinct (map fst [(''123456'', all_bytes_share), (''000000'', live_share)])"
    by simp
  have h2: "\<forall>(code, info) \<in> set [(''123456'', all_bytes_share), (''000000'', live_share)].
      valid_datetime (created info) \<and> valid_datetime (expires info)"
    by (simp add: all_bytes_share_def live_share_def valid_datetime_def mk_datetime_def
          days_in_month_def)
  from load_after_save [OF h1 h2] show ?thesis .
qed

section \<open>Properties of AES\<close>

lemma xor_bytes_length: "length (xor_bytes xs ys) = min (length xs) (length ys)"
  by (simp add: xor_bytes_def)

lemma xor_bytes_cancel: "length xs = length ks \<Longrightarrow> xor_bytes (xor_bytes xs ks) ks = xs"
  unfolding xor_bytes_def
  by (induction xs ks rule: list_induct2) (simp_all add: xor.assoc)

lemma sbox_table_inverse:
  "map (\<lambda>b. aes_inv_sbox ! unat b) aes_sbox = map of_nat [0..<256]"
  unfolding aes_sbox_def aes_inv_sbox_def by code_simp


lemma aes_sbox_length: "length aes_sbox = 256"
  by (simp add: aes_sbox_def)

lemma inv_sub_byte_sub_byte: "inv_sub_byte (sub_byte b) = b"
proof -
  have "unat b < length aes_sbox" using unat_byte_lt [of b] by (simp add: aes_sbox_length)
  then have "map (\<lambda>b. aes_inv_sbox ! unat b) aes_sbox ! unat b = aes_inv_sbox ! unat (aes_sbox ! unat b)"
    by (rule nth_map)
  moreover have "map of_nat [0..<256] ! unat b = (b::byte)"
    using unat_byte_lt [of b] by simp
  ultimately show ?thesis
    by (simp add: inv_sub_byte_def sub_byte_def sbox_table_inverse)
qed

lemma map_inv_sub_byte: "map inv_sub_byte (map sub_byte s) = s"
  by (simp add: comp_def inv_sub_byte_sub_byte)

lemma xtime_xor: "xtime (a XOR b) = xtime a XOR xtime b"
  by (cases "bit a 7"; cases "bit b 7") (simp_all add: xtime_def push_bit_xor bit_xor_iff xor.assoc xor.commute xor.left_commute)

lemma inv_mix_column_mix_column:
  "inv_mix_columns (mix_column a b c d @ rest) = [a, b, c, d] @ inv_mix_columns rest"
  by (simp add: mix_column_def inv_mix_column_def mul2_def mul3_def mul9_def mul11_def
        mul13_def mul14_def xtime_xor xor.assoc xor.commute xor.left_commute)

lemma inv_mix_columns_mix_columns: "length s mod 4 = 0 \<Longrightarrow> inv_mix_columns (mix_columns s) = s"
proof (induction s rule: mix_columns.induct)
  case (1 a b c d rest)
  then show ?case by (simp add: inv_mix_column_mix_column del: inv_mix_columns.simps)
qed simp_all

lemma mix_columns_length: "length s mod 4 = 0 \<Longrightarrow> length (mix_columns s) = length s"
  by (induction s rule: mix_columns.induct) (simp_all add: mix_column_def)

lemma list16:
  assumes "length s = 16"
  obtains s0 s1 s2 s3 s4 s5 s6 s7 s8 s9 s10 s11 s12 s13 s14 s15
  where "s = [s0, s1, s2, s3, s4, s5, s6, s7, s8, s9, s10, s11, s12, s13, s14, s15]"
  using assms by (auto simp: eval_nat_numeral length_Suc_conv)

lemma inv_shift_rows_shift_rows: "length s = 16 \<Longrightarrow> inv_shift_rows (shift_rows s) = s"
  by (erule list16) (simp add: shift_rows_def inv_shift_rows_def)

lemma shift_rows_length: "length (shift_rows s) = 16"
  by (simp add: shift_rows_def)

lemma aes_round_length: "length s = 16 \<Longrightarrow> length rk = 16 \<Longrightarrow> length (aes_round s rk) = 16"
  by (simp add: aes_round_def xor_bytes_length mix_columns_length shift_rows_length)

lemma aes_inv_round_aes_round:
  assumes "length s = 16" and "length rk = 16"
  shows "aes_inv_round (aes_round s rk) rk = s"
proof -
  have l: "length (mix_columns (shift_rows (map sub_byte s))) = length rk"
    using assms by (simp add: mix_columns_length shift_rows_length)
  show ?thesis
    unfolding aes_round_def aes_inv_round_def xor_bytes_cancel [OF l]
    using assms
    by (simp add: inv_mix_columns_mix_columns shift_rows_length inv_shift_rows_shift_rows
          comp_def inv_sub_byte_sub_byte)
qed

lemma foldl_aes_round_length:
  "length s = 16 \<Longrightarrow> \<forall>rk \<in> set rks. length rk = 16 \<Longrightarrow> length (foldl aes_round s rks) = 16"
  by (induction rks arbitrary: s) (simp_all add: aes_round_length)

lemma foldl_aes_inv_round:
  "length s = 16 \<Longrightarrow> \<forall>rk \<in> set rks. length rk = 16 \<Longrightarrow>
     foldl aes_inv_round (foldl aes_round s rks) (rev rks) = s"
proof (induction rks arbitrary: s)
  case Nil
  then show ?case by simp
next
  case (Cons rk rks)
  then have "foldl aes_inv_round (foldl aes_round (aes_round s rk) rks) (rev rks) = aes_round s rk"
    by (simp add: aes_round_length)
  with Cons.prems show ?case by (simp add: aes_inv_round_aes_round)
qed

lemma next_round_key_length: "length k = 16 \<Longrightarrow> length (next_round_key rcon k) = 16"
  by (simp add: next_round_key_def Let_def xor_bytes_length)

lemma expand_keys_lengths:
  "length k = 16 \<Longrightarrow> \<forall>rk \<in> set (expand_keys rcons k). length rk = 16"
proof (induction rcons arbitrary: k)
  case Nil
  then show ?case by simp
next
  case (Cons rcon rcons)
  from Cons.prems have "length (next_round_key rcon k) = 16" by (rule next_round_key_length)
  from Cons.IH [OF this] Cons.prems show ?case by simp
qed

lemma expand_keys_length: "length (expand_keys rcons k) = Suc (length rcons)"
  by (induction rcons arbitrary: k) simp_all

lemma key_expansion_length: "length (key_expansion key) = 11"
  by (simp add: key_expansion_def expand_keys_length)

lemma key_expansion_lengths: "length key = 16 \<Longrightarrow> \<forall>rk \<in> set (key_expansion key). length rk = 16"
  unfolding key_expansion_def by (rule expand_keys_lengths)

lemma key_expansion_nth: "length key = 16 \<Longrightarrow> i < 11 \<Longrightarrow> length (key_expansion key ! i) = 16"
  using key_expansion_lengths [of key] nth_mem [of i "key_expansion key"]
  by (simp add: key_expansion_length)

lemma key_expansion_middle:
  "length key = 16 \<Longrightarrow> \<forall>rk \<in> set (take 9 (drop 1 (key_expansion key))). length rk = 16"
  using key_expansion_lengths [of key] by (meson in_set_dropD in_set_takeD)

lemma aes128_encrypt_block_length:
  "length key = 16 \<Longrightarrow> length blk = 16 \<Longrightarrow> length (aes128_encrypt_block key blk) = 16"
  by (simp add: aes128_encrypt_block_def Let_def xor_bytes_length shift_rows_length key_expansion_nth)

lemma aes128_decrypt_encrypt:
  assumes "length key = 16" and "length blk = 16"
  shows "aes128_decrypt_block key (aes128_encrypt_block key blk) = blk"
proof -
  let ?rks = "key_expansion key"
  let ?mid = "take 9 (drop 1 ?rks)"
  let ?init = "xor_bytes blk (?rks ! 0)"
  let ?s = "foldl aes_round ?init ?mid"
  have k0: "length (?rks ! 0) = 16" and k10: "length (?rks ! 10) = 16"
    using assms(1) by (simp_all add: key_expansion_nth)
  have mid: "\<forall>rk \<in> set ?mid. length rk = 16" using assms(1) by (rule key_expansion_middle)
  have s0: "length ?init = 16" using assms(2) k0 by (simp add: xor_bytes_length)
  have s: "length ?s = 16" using s0 mid by (rule foldl_aes_round_length)
  have l: "length (shift_rows (map sub_byte ?s)) = length (?rks ! 10)"
    using k10 by (simp add: shift_rows_length)
  have "map inv_sub_byte (inv_shift_rows (xor_bytes (xor_bytes (shift_rows (map sub_byte ?s)) (?rks ! 10)) (?rks ! 10))) = ?s"
    unfolding xor_bytes_cancel [OF l] using s
    by (simp add: inv_shift_rows_shift_rows comp_def inv_sub_byte_sub_byte)
  moreover have "foldl aes_inv_round ?s (rev ?mid) = ?init"
    using s0 mid by (rule foldl_aes_inv_round)
  moreover have "xor_bytes ?init (?rks ! 0) = blk"
    using assms(2) k0 by (simp add: xor_bytes_cancel)
  ultimately show ?thesis
    by (simp add: aes128_decrypt_block_def aes128_encrypt_block_def Let_def)
qed

section \<open>Properties of CBC mode and padding\<close>

lemma cbc_encrypt_lengths:
  "length key = 16 \<Longrightarrow> length prev = 16 \<Longrightarrow> \<forall>b \<in> set bs. length b = 16 \<Longrightarrow>
     \<forall>c \<in> set (cbc_encrypt key prev bs). length c = 16"
proof (induction bs arbitrary: prev)
  case Nil
  then show ?case by simp
next
  case (Cons b bs)
  then have "length (aes128_encrypt_block key (xor_bytes b prev)) = 16"
    by (simp add: aes128_encrypt_block_length xor_bytes_length)
  with Cons show ?case by (simp add: Let_def)
qed

lemma cbc_encrypt_length: "length (cbc_encrypt key prev bs) = length bs"
  by (induction bs arbitrary: prev) (simp_all add: Let_def)

lemma cbc_decrypt_encrypt:
  "length key = 16 \<Longrightarrow> length prev = 16 \<Longrightarrow> \<forall>b \<in> set bs. length b = 16 \<Longrightarrow>
     cbc_decrypt key prev (cbc_encrypt key prev bs) = bs"
proof (induction bs arbitrary: prev)
  case Nil
  then show ?case by simp
next
  case (Cons b bs)
  let ?c = "aes128_encrypt_block key (xor_bytes b prev)"
  from Cons.prems have lb: "length (xor_bytes b prev) = 16" by (simp add: xor_bytes_length)
  with Cons.prems have lc: "length ?c = 16" by (simp add: aes128_encrypt_block_length)
  from Cons.prems lb have "aes128_decrypt_block key ?c = xor_bytes b prev"
    by (simp add: aes128_decrypt_encrypt)
  moreover from Cons.prems have "xor_bytes (xor_bytes b prev) prev = b"
    by (simp add: xor_bytes_cancel)
  moreover from Cons.IH [OF Cons.prems(1) lc] Cons.prems
  have "cbc_decrypt key ?c (cbc_encrypt key ?c bs) = bs" by simp
  ultimately show ?case by (simp add: Let_def)
qed

lemma blocks_of_concat:
  "0 < n \<Longrightarrow> \<forall>b \<in> set bs. length b = n \<Longrightarrow> blocks_of n (concat bs) = bs"
proof (induction bs)
  case Nil
  then show ?case by (simp add: blocks_of_def)
next
  case (Cons b bs)
  then have lb: "length b = n" and IH: "blocks_of n (concat bs) = bs" by simp_all
  have len: "length (concat (b # bs)) div n = Suc (length (concat bs) div n)"
    using lb Cons.prems(1) by (simp add: div_add_self1)
  have "blocks_of n (concat (b # bs)) =
      map (\<lambda>i. take n (drop (n * i) (b @ concat bs))) (0 # map Suc [0..<length (concat bs) div n])"
    unfolding blocks_of_def len by (simp add: upt_conv_Cons map_Suc_upt del: upt_Suc)
  also have "\<dots> = b # map (\<lambda>i. take n (drop (n * i) (concat bs))) [0..<length (concat bs) div n]"
    using lb by (simp add: comp_def)
  also have "\<dots> = b # bs" using IH by (simp add: blocks_of_def)
  finally show ?case .
qed

lemma blocks_of_step:
  assumes "0 < n" and "n \<le> length xs"
  shows "blocks_of n xs = take n xs # blocks_of n (drop n xs)"
proof -
  from assms have len: "length xs div n = Suc ((length xs - n) div n)"
    by (simp add: le_div_geq)
  have "blocks_of n xs = map (\<lambda>i. take n (drop (n * i) xs)) (0 # map Suc [0..<(length xs - n) div n])"
    unfolding blocks_of_def len by (simp add: upt_conv_Cons map_Suc_upt del: upt_Suc)
  also have "\<dots> = take n xs # map (\<lambda>i. take n (drop (n * i) (drop n xs))) [0..<(length xs - n) div n]"
    by (simp add: comp_def add.commute)
  finally show ?thesis by (simp add: blocks_of_def)
qed

lemma concat_blocks_of:
  assumes "0 < n"
  shows "length xs mod n = 0 \<Longrightarrow> concat (blocks_of n xs) = xs"
proof (induction xs rule: length_induct)
  case (1 xs)
  show ?case
  proof (cases "xs = []")
    case True
    then show ?thesis by (simp add: blocks_of_def)
  next
    case False
    with "1.prems" assms have ge: "n \<le> length xs"
      by (metis length_greater_0_conv mod_less not_le less_numeral_extra(3))
    from ge assms False have shorter: "length (drop n xs) < length xs" by simp
    from ge "1.prems" have rest: "length (drop n xs) mod n = 0"
      by (simp add: le_mod_geq)
    from "1.IH" [rule_format, OF shorter rest]
    have "concat (blocks_of n (drop n xs)) = drop n xs" .
    then show ?thesis by (simp add: blocks_of_step [OF assms ge])
  qed
qed

lemma blocks_of_lengths: "\<forall>b \<in> set (blocks_of n xs). length b = n"
proof
  fix b assume "b \<in> set (blocks_of n xs)"
  then obtain i where i: "i < length xs div n" and b: "b = take n (drop (n * i) xs)"
    by (auto simp: blocks_of_def)
  from i have "Suc i \<le> length xs div n" by simp
  then have "n * Suc i \<le> n * (length xs div n)" by (rule mult_le_mono2)
  also have "\<dots> \<le> length xs" by simp
  finally have "n * i + n \<le> length xs" by simp
  then show "length b = n" unfolding b by simp
qed


lemma pkcs7_pad_length: "length (pkcs7_pad d) mod 16 = 0"
proof -
  have "length d + (16 - length d mod 16) = 16 * (length d div 16) + 16"
    using mod_less_divisor [of 16 "length d"] div_mult_mod_eq [of "length d" 16]
    by linarith
  then show ?thesis by (simp add: pkcs7_pad_def Let_def)
qed

lemma pkcs7_unpad_pad: "pkcs7_unpad (pkcs7_pad d) = Inr d"
proof -
  define n where "n = 16 - length d mod 16"
  have n: "0 < n" "n \<le> 16" unfolding n_def by simp_all
  then have un: "unat (of_nat n :: byte) = n" by (simp add: unat_of_nat)
  have pad: "pkcs7_pad d = d @ replicate n (of_nat n)" by (simp add: pkcs7_pad_def n_def Let_def)
  have ne: "d @ replicate n (of_nat n :: byte) \<noteq> []" using n by simp
  have lst: "last (d @ replicate n (of_nat n :: byte)) = of_nat n" using n by simp
  show ?thesis
    unfolding pad pkcs7_unpad_def using n ne
    by (simp add: lst un Let_def list_all_iff)
qed

section \<open>Properties of the hash functions\<close>

lemma sha256_length: "length (sha256 msg) = 32"
proof -
  obtain a b c d e f g h where
    "foldl sha256_compress sha256_init (blocks_of 64 (sha256_pad msg)) = (a, b, c, d, e, f, g, h)"
    by (metis prod_cases3)
  then show ?thesis by (simp add: sha256_def be32_bytes_def)
qed

lemma hmac_sha256_length: "length (hmac_sha256 key msg) = 32"
  by (simp add: hmac_sha256_def Let_def sha256_length)

lemma pbkdf2_chain_length:
  "length acc = 32 \<Longrightarrow> length (pbkdf2_chain n password u acc) = 32"
  by (induction n arbitrary: u acc) (simp_all add: Let_def xor_bytes_length hmac_sha256_length)

lemma pbkdf2_block_length: "length (pbkdf2_block password s c i) = 32"
  by (simp add: pbkdf2_block_def Let_def pbkdf2_chain_length hmac_sha256_length)

lemma pbkdf2_hmac_sha256_length: "length (pbkdf2_hmac_sha256 password s c 32) = 32"
  by (simp add: pbkdf2_hmac_sha256_def pbkdf2_block_length upt_rec [of 1])

lemma be64_bytes_length: "length (be64_bytes w) = 8"
  by (simp add: be64_bytes_def)


section \<open>Properties of Fernet\<close>

lemma Fernet_key:
  "length k = 32 \<Longrightarrow>
     Fernet (urlsafe_b64encode k) = Inr \<lparr>signing_key = take 16 k, fernet_encryption_key = drop 16 k\<rparr>"
  by (simp add: Fernet_def urlsafe_b64decode_urlsafe_b64encode)

lemma concat_length_blocks: "\<forall>b \<in> set bs. length b = n \<Longrightarrow> length (concat bs) = n * length bs"
  by (induction bs) simp_all

lemma token_split_tag:
  "length tag = 32 \<Longrightarrow>
     take (length (bp @ tag) - 32) (bp @ tag) = bp \<and> drop (length (bp @ tag) - 32) (bp @ tag) = tag"
  by simp

lemma token_split_iv:
  "length ts = 8 \<Longrightarrow> length iv = 16 \<Longrightarrow> take 16 (drop 9 (([v] @ ts @ iv @ ct) @ tag)) = iv"
  by simp

lemma token_split_ciphertext:
  "length ts = 8 \<Longrightarrow> length iv = 16 \<Longrightarrow> length tag = 32 \<Longrightarrow>
     take (length (([v] @ ts @ iv @ ct) @ tag) - 32 - 25) (drop 25 (([v] @ ts @ iv @ ct) @ tag)) = ct"
  by simp

lemma fernet_decrypt_token:
  assumes "length iv = 16" and "length ct mod 16 = 0"
  shows "fernet_decrypt f
           (urlsafe_b64encode (([128] @ be64_bytes t @ iv @ ct) @
              hmac_sha256 (signing_key f) ([128] @ be64_bytes t @ iv @ ct)))
         = (case pkcs7_unpad (concat (cbc_decrypt (fernet_encryption_key f) iv (blocks_of 16 ct))) of
              Inl e \<Rightarrow> Inl InvalidToken
            | Inr plaintext \<Rightarrow> Inr plaintext)"
proof -
  let ?bp = "[128] @ be64_bytes t @ iv @ ct"
  let ?tag = "hmac_sha256 (signing_key f) ?bp"
  let ?d = "?bp @ ?tag"
  have lt: "length ?tag = 32" by (rule hmac_sha256_length)
  have lb: "length (be64_bytes t) = 8" by (rule be64_bytes_length)
  have tk: "take (length ?d - 32) ?d = ?bp" and dr: "drop (length ?d - 32) ?d = ?tag"
    using token_split_tag [OF lt, of ?bp] by blast+
  have iv: "take 16 (drop 9 ?d) = iv" using lb assms(1) by (rule token_split_iv)
  have ct: "take (length ?d - 32 - 25) (drop 25 ?d) = ct"
    using lb assms(1) lt by (rule token_split_ciphertext)
  have hd: "?d \<noteq> []" "hd ?d = 128" by simp_all
  have l9: "\<not> length ?d < 9" using lb by simp
  show ?thesis
    unfolding fernet_decrypt_def urlsafe_b64decode_urlsafe_b64encode
    using assms
    by (simp only: sum.case tk dr iv ct hd l9 Let_def) simp
qed

lemma fernet_decrypt_encrypt:
  assumes "length iv = 16" and "length (fernet_encryption_key f) = 16"
  shows "\<exists>token. fernet_encrypt f t iv p = Inr token \<and> fernet_decrypt f token = Inr p"
proof -
  let ?blocks = "blocks_of 16 (pkcs7_pad p)"
  let ?cs = "cbc_encrypt (fernet_encryption_key f) iv ?blocks"
  let ?ct = "concat ?cs"
  have bl: "\<forall>b \<in> set ?blocks. length b = 16" by (rule blocks_of_lengths)
  have cl: "\<forall>c \<in> set ?cs. length c = 16" using assms(2,1) bl by (rule cbc_encrypt_lengths)
  have lct: "length ?ct mod 16 = 0" by (simp add: concat_length_blocks [OF cl])
  have "blocks_of 16 ?ct = ?cs" using cl by (simp add: blocks_of_concat)
  moreover have "cbc_decrypt (fernet_encryption_key f) iv ?cs = ?blocks"
    using assms(2,1) bl by (rule cbc_decrypt_encrypt)
  moreover have "concat ?blocks = pkcs7_pad p" by (simp add: concat_blocks_of pkcs7_pad_length)
  ultimately have "pkcs7_unpad (concat (cbc_decrypt (fernet_encryption_key f) iv (blocks_of 16 ?ct))) = Inr p"
    by (simp add: pkcs7_unpad_pad)
  with fernet_decrypt_token [OF assms(1) lct, of f t] assms(1)
  show ?thesis by (simp add: fernet_encrypt_def Let_def)
qed

lemma decrypt_file_encrypt_file:
  assumes "length iv = 16" and "length k = 32"
  shows "\<exists>token. encrypt_file t iv p (urlsafe_b64encode k) = Inr token \<and>
           decrypt_file token (urlsafe_b64encode k) = Inr p"
  using fernet_decrypt_encrypt [of iv "\<lparr>signing_key = take 16 k, fernet_encryption_key = drop 16 k\<rparr>" t p]
    assms
  by (simp add: encrypt_file_def decrypt_file_def Fernet_key)

text \<open>
  C2: for every plaintext, every key that \<open>generate_encryption_key\<close> returns, every clock
  reading and every 16-byte IV, \<open>encrypt_file\<close> returns a token, and \<open>decrypt_file\<close>
  with the same key returns exactly the plaintext from it.
\<close>

theorem decrypt_file_inverts_encrypt_file:
  assumes "length iv = 16"
  shows "\<exists>token. encrypt_file t iv p (generate_encryption_key password s) = Inr token \<and>
           decrypt_file token (generate_encryption_key password s) = Inr p"
  unfolding generate_encryption_key_def
  using assms by (rule decrypt_file_encrypt_file) (rule pbkdf2_hmac_sha256_length)

theorem decrypt_file_inverts_encrypt_file_witness:
  "\<exists>token. encrypt_file 1700000000 [0, 1, 2, 3, 4, 5, 6, 7, 8, 9, 10, 11, 12, 13, 14, 15]
              [104, 101, 108, 108, 111] (generate_encryption_key ''407193'' example_salt) = Inr token \<and>
           decrypt_file token (generate_encryption_key ''407193'' example_salt)
             = Inr [104, 101, 108, 108, 111]"
proof -
  have h: "length [0, 1, 2, 3, 4, 5, 6, 7, 8, 9, 10, 11, 12, 13, 14, 15 :: byte] = 16" by simp
  from decrypt_file_inverts_encrypt_file [OF h] show ?thesis .
qed

section \<open>Decryption with another key\<close>





















end
